theory Spec2Isabelle
  imports Complex_Main "HOL-Library.Word"
begin

section \<open>The master's entry point (mooncake\_master, \<open>main\<close>)\<close>

text \<open>
  The command-line flags of the master, as \<open>DEFINE_int32\<close>, \<open>DEFINE_bool\<close> and
  \<open>DEFINE_string\<close> declare them. An \<open>int32\<close> flag is read as the integer it denotes.
\<close>

record Flags =
  FLAGS_port :: int
  FLAGS_max_threads :: int
  FLAGS_enable_gc :: bool
  FLAGS_enable_metric_reporting :: bool
  FLAGS_metrics_port :: int
  FLAGS_lmcache_controller_url :: string

definition default_flags :: Flags where
  "default_flags =
     \<lparr>FLAGS_port = 50051, FLAGS_max_threads = 4, FLAGS_enable_gc = False,
      FLAGS_enable_metric_reporting = True, FLAGS_metrics_port = 9003,
      FLAGS_lmcache_controller_url = ''http://localhost:8000/api/kv_events''\<rparr>"

text \<open>
  The public operations of \<open>MasterService\<close> (master\_service.cpp); the RPC wrapper
  \<open>WrappedMasterService\<close> exposes a member function of the same name for each one it
  serves, and \<open>register_handler<&WrappedMasterService::X>\<close> installs that member as the
  handler of the RPC \<open>X\<close>.
\<close>

datatype Operation =
    MountSegment | ReMountSegment | UnmountSegment
  | ExistKey | BatchExistKey
  | GetAllKeys | GetAllSegments | QuerySegments
  | GetReplicaList | BatchGetReplicaList
  | PutStart | PutEnd | PutRevoke
  | BatchPutStart | BatchPutEnd | BatchPutRevoke
  | Remove | RemoveAll
  | Ping | GetFsdir

text \<open>
  The \<open>coro_rpc_server\<close> object of \<open>main\<close>: the two constructor arguments, named
  \<open>thread\<close> and \<open>port\<close> at the call, and the handlers registered so far, in
  registration order.
\<close>

record coro_rpc_server =
  thread :: int
  port :: int
  handlers :: "Operation list"

definition register_handler :: "Operation \<Rightarrow> coro_rpc_server \<Rightarrow> coro_rpc_server" where
  "register_handler h server = server\<lparr>handlers := handlers server @ [h]\<rparr>"

text \<open>
  \<open>static_cast<int>(std::thread::hardware_concurrency())\<close>: the unsigned 32-bit result
  read as a two's complement \<open>int\<close>.
\<close>

definition static_cast_int :: "32 word \<Rightarrow> int" where
  "static_cast_int u = sint u"

text \<open>
  \<open>main\<close> up to \<open>server.start()\<close>: the server is constructed with
  \<open>std::min(FLAGS_max_threads, static_cast<int>(hardware_concurrency()))\<close> threads on
  \<open>FLAGS_port\<close>, then nine handlers are registered, in this order.
\<close>

definition main_server :: "Flags \<Rightarrow> 32 word \<Rightarrow> coro_rpc_server" where
  "main_server flags hardware_concurrency =
     (let server = \<lparr>thread = min (FLAGS_max_threads flags) (static_cast_int hardware_concurrency),
                     port = FLAGS_port flags, handlers = []\<rparr>;
          server = register_handler ExistKey server;
          server = register_handler GetReplicaList server;
          server = register_handler PutStart server;
          server = register_handler PutEnd server;
          server = register_handler PutRevoke server;
          server = register_handler Remove server;
          server = register_handler RemoveAll server;
          server = register_handler MountSegment server;
          server = register_handler UnmountSegment server
      in server)"

text \<open>
  The request surface as the specification lists it: \<open>MountSegment\<close>,
  \<open>ReMountSegment\<close>, \<open>UnmountSegment\<close>, \<open>PutStart/PutEnd/PutRevoke\<close>,
  \<open>Get/ExistKey\<close>, \<open>Remove/RemoveAll\<close>, \<open>Ping\<close> and their batch forms. It is
  written from the specification's words, to be compared with what \<open>main\<close> registers.
\<close>

definition spec_request_surface :: "Operation list" where
  "spec_request_surface =
     [MountSegment, ReMountSegment, UnmountSegment, PutStart, PutEnd, PutRevoke,
      GetReplicaList, ExistKey, Remove, RemoveAll, Ping,
      BatchPutStart, BatchPutEnd, BatchPutRevoke, BatchGetReplicaList, BatchExistKey]"


section \<open>The benchmark driver (\<open>Benchmark::Run\<close>)\<close>

text \<open>
  \<open>int\<close> arithmetic of the benchmark: a result that does not fit 32 bits, and a division
  by zero, are undefined behaviour in the source; the model returns them as faults
  instead of a number. \<open>int32 x\<close> is the outcome of an operation whose mathematical
  result is \<open>x\<close>; \<open>/\<close> and \<open>%\<close> truncate towards zero.
\<close>

datatype Fault = DivisionByZero | SignedOverflow

definition int32 :: "int \<Rightarrow> Fault + int" where
  "int32 x = (if - (2 ^ 31) \<le> x \<and> x < 2 ^ 31 then Inr x else Inl SignedOverflow)"

definition int_div :: "int \<Rightarrow> int \<Rightarrow> Fault + int" where
  "int_div a b =
     (if b = 0 then Inl DivisionByZero else int32 (sgn a * sgn b * (\<bar>a\<bar> div \<bar>b\<bar>)))"

definition int_rem :: "int \<Rightarrow> int \<Rightarrow> Fault + int" where
  "int_rem a b =
     (if b = 0 then Inl DivisionByZero
      else case int_div a b of Inl f \<Rightarrow> Inl f | Inr _ \<Rightarrow> Inr (sgn a * (\<bar>a\<bar> mod \<bar>b\<bar>)))"

text \<open>
  The arguments \<open>Run\<close> hands to one \<open>WorkerThread\<close>: the thread's number and the
  half-open range \<open>[start_idx, end_idx)\<close> of operation indices it is to perform.
\<close>

record WorkerArgs =
  thread_id :: int
  start_idx :: int
  end_idx :: int

text \<open>
  The loop \<open>for (int i = 0; i < num_threads; ++i)\<close> of \<open>Run\<close>, from the value \<open>i\<close> of
  its counter on; \<open>threads\<close> holds the workers launched so far.
\<close>

function launch_workers ::
  "int \<Rightarrow> int \<Rightarrow> int \<Rightarrow> int \<Rightarrow> WorkerArgs list \<Rightarrow> Fault + WorkerArgs list" where
  "launch_workers num_threads ops_per_thread remainder i threads =
     (if i < num_threads then
        (case int32 (i * ops_per_thread) of Inl f \<Rightarrow> Inl f | Inr start \<Rightarrow>
         case int32 (start + ops_per_thread) of Inl f \<Rightarrow> Inl f | Inr end0 \<Rightarrow>
         case (if i = num_threads - 1 then int32 (end0 + remainder) else Inr end0) of
           Inl f \<Rightarrow> Inl f
         | Inr end1 \<Rightarrow>
         case int32 (i + 1) of Inl f \<Rightarrow> Inl f | Inr i' \<Rightarrow>
           launch_workers num_threads ops_per_thread remainder i'
             (threads @ [\<lparr>thread_id = i, start_idx = start, end_idx = end1\<rparr>]))
      else Inr threads)"
  by pat_completeness auto
termination
  by (relation "measure (\<lambda>(num_threads, ops_per_thread, remainder, i, threads). nat (num_threads - i))")
     (auto simp: int32_def split: if_splits)

text \<open>
  The part of \<open>Run\<close> that splits the work: \<open>ops_per_thread\<close>, \<open>remainder\<close>, then the
  loop. The result lists the workers in launch order.
\<close>

definition Run_partition :: "int \<Rightarrow> int \<Rightarrow> Fault + WorkerArgs list" where
  "Run_partition num_operations num_threads =
     (case int_div num_operations num_threads of Inl f \<Rightarrow> Inl f | Inr ops_per_thread \<Rightarrow>
      case int_rem num_operations num_threads of Inl f \<Rightarrow> Inl f | Inr remainder \<Rightarrow>
        launch_workers num_threads ops_per_thread remainder 0 [])"

text \<open>
  The range thread \<open>i\<close> of \<open>t\<close> is expected to get over \<open>n\<close> operations: \<open>n div t\<close>
  indices from \<open>i * (n div t)\<close> on, and the remainder too for the last thread. It is
  what the loop's result is compared with.
\<close>

definition range_of :: "int \<Rightarrow> int \<Rightarrow> int \<Rightarrow> WorkerArgs" where
  "range_of n t i = \<lparr>thread_id = i, start_idx = i * (n div t),
      end_idx = (i + 1) * (n div t) + (if i = t - 1 then n mod t else 0)\<rparr>"


section \<open>The batch benchmark's statistics (\<open>calculate_percentiles\<close>)\<close>

text \<open>
  A latency is a \<open>double\<close> that is a number (the benchmark stores microsecond counts),
  written as the real number it denotes. The arithmetic of \<open>double\<close> is the exact
  operation followed by the rounding \<open>rnd\<close> of the format, which is a parameter of the
  model: \<open>size * 0.50\<close> converts \<open>size\<close> and the literal to \<open>double\<close>, multiplies and
  rounds, \<open>- 1\<close> subtracts and rounds, and \<open>std::ceil\<close> is exact.
\<close>

definition percentile_index :: "(real \<Rightarrow> real) \<Rightarrow> nat \<Rightarrow> real \<Rightarrow> int" where
  "percentile_index rnd sz q = \<lceil>rnd (rnd (rnd (real sz) * rnd q) - 1)\<rceil>"

text \<open>
  \<open>latencies[static_cast<size_t>(i)]\<close> for the value \<open>i\<close> that \<open>std::ceil\<close> returned:
  converting a negative number to \<open>size_t\<close>, and reading at or beyond the vector's size,
  are undefined behaviour in the source and faults in the model.
\<close>

datatype BadIndex = NegativeIndex | IndexOutOfRange

definition element_at :: "real list \<Rightarrow> int \<Rightarrow> BadIndex + real" where
  "element_at xs i =
     (if i < 0 then Inl NegativeIndex
      else if length xs \<le> nat i then Inl IndexOutOfRange
      else Inr (xs ! nat i))"

text \<open>
  \<open>calculate_percentiles(latencies, p50, p90, p95, p99)\<close>: the result is the vector as
  the function leaves it, and the four outputs.
\<close>

definition calculate_percentiles ::
  "(real \<Rightarrow> real) \<Rightarrow> real list \<Rightarrow> BadIndex + (real list \<times> real \<times> real \<times> real \<times> real)" where
  "calculate_percentiles rnd latencies =
     (if latencies = [] then Inr (latencies, 0, 0, 0, 0)
      else
        (let sorted_latencies = sort latencies;
             sz = length sorted_latencies
         in case element_at sorted_latencies (percentile_index rnd sz (50 / 100)) of
              Inl e \<Rightarrow> Inl e
            | Inr p50 \<Rightarrow>
           (case element_at sorted_latencies (percentile_index rnd sz (90 / 100)) of
              Inl e \<Rightarrow> Inl e
            | Inr p90 \<Rightarrow>
           (case element_at sorted_latencies (percentile_index rnd sz (95 / 100)) of
              Inl e \<Rightarrow> Inl e
            | Inr p95 \<Rightarrow>
           (case element_at sorted_latencies (percentile_index rnd sz (99 / 100)) of
              Inl e \<Rightarrow> Inl e
            | Inr p99 \<Rightarrow> Inr (sorted_latencies, p50, p90, p95, p99))))))"

text \<open>
  What is used of the rounding of \<open>double\<close>: it is monotone, and it leaves unchanged the
  integers up to \<open>2 ^ 53\<close> in magnitude and the numbers \<open>1/2\<close> and \<open>- 1/2\<close>, all of
  which the format represents.
\<close>

definition double_rounding :: "(real \<Rightarrow> real) \<Rightarrow> bool" where
  "double_rounding rnd \<longleftrightarrow>
     mono rnd
     \<and> (\<forall>k::int. \<bar>k\<bar> \<le> 2 ^ 53 \<longrightarrow> rnd (of_int k) = of_int k)
     \<and> rnd (1 / 2) = 1 / 2 \<and> rnd (- (1 / 2)) = - (1 / 2)"


section \<open>The benchmark's store engine (\<open>MooncakeEngine\<close>)\<close>

subsection \<open>Data\<close>

text \<open>
  Addresses of the process are natural numbers; \<open>nullptr\<close> is address \<open>0\<close>. Sizes and
  offsets are \<open>size_t\<close> and \<open>uint64_t\<close> values: they are natural numbers here, and the
  one place where the source can wrap around (\<open>length += chunk_size\<close>) is written with
  \<open>mod 2 ^ 64\<close>. A \<open>std::string\<close> is its list of bytes.
\<close>

type_synonym addr = nat

definition nullptr :: addr where
  "nullptr = 0"

text \<open>\<open>Slice{ptr, size}\<close>: a buffer of \<open>size\<close> bytes at \<open>ptr\<close>.\<close>

record Slice =
  ptr :: addr
  size_slice :: nat

datatype ErrorCode =
    OK | INTERNAL_ERROR | INVALID_PARAMS | OBJECT_NOT_FOUND | OBJECT_ALREADY_EXISTS
  | OBJECT_HAS_LEASE | REPLICA_IS_NOT_READY | INVALID_WRITE | INVALID_REPLICA
  | NO_AVAILABLE_HANDLE | SEGMENT_NOT_FOUND | SEGMENT_ALREADY_EXISTS
  | UNAVAILABLE_IN_CURRENT_MODE | TRANSFER_FAIL

text \<open>
  What \<open>Client::Query\<close> returns: the replicas of an object, each an ordered list of
  buffer handles. Of a handle the engine reads \<open>size()\<close> only.
\<close>

record BufHandle =
  segment_name :: string
  size_handle :: nat
  buffer :: nat

record ReplicaInfo =
  handles :: "BufHandle list"

record ObjectInfo =
  replica_list :: "ReplicaInfo list"

subsection \<open>The engine's collaborators\<close>

text \<open>
  The engine calls code that is not part of it: the \<open>SimpleAllocator\<close> behind
  \<open>client_buffer_allocator_\<close>, and the \<open>Client\<close> behind \<open>client_\<close>, which talks to the
  master and moves bytes over the transfer engine. Their behaviour is a parameter of
  the model: \<open>'a\<close> is the allocator's state and \<open>'c\<close> the client's (with the store behind
  it); each operation returns its result and the new state. \<open>Client_Get\<close> may write
  into the process memory (the slices it is given), so it takes and returns the memory.
  The constant \<open>kMaxSliceSize\<close> comes from types.h, which is not among the sources: it is
  a parameter too.
\<close>

record ('c, 'a) Env =
  kMaxSliceSize :: nat
  allocate :: "'a \<Rightarrow> nat \<Rightarrow> addr \<times> 'a"
  deallocate :: "'a \<Rightarrow> addr \<Rightarrow> nat \<Rightarrow> 'a"
  Client_Query :: "'c \<Rightarrow> string \<Rightarrow> (ErrorCode \<times> ObjectInfo) \<times> 'c"
  Client_Get :: "'c \<Rightarrow> string \<Rightarrow> ObjectInfo \<Rightarrow> Slice list \<Rightarrow> (addr \<Rightarrow> char)
                  \<Rightarrow> (ErrorCode \<times> (addr \<Rightarrow> char)) \<times> 'c"
  Client_Put :: "'c \<Rightarrow> string \<Rightarrow> Slice list \<Rightarrow> (addr \<Rightarrow> char) \<Rightarrow> ErrorCode \<times> 'c"

text \<open>
  The calls the engine makes to its collaborators, in the order it makes them:
  \<open>Call_allocate n p\<close> is \<open>allocate(n)\<close> returning \<open>p\<close>, \<open>Call_deallocate p n\<close> is
  \<open>deallocate(p, n)\<close>, and the other three are \<open>client_->Query\<close>, \<open>client_->Get\<close> and
  \<open>client_->Put\<close> on a key.
\<close>

datatype Call =
    Call_allocate nat addr
  | Call_deallocate addr nat
  | Call_Query string
  | Call_Get string
  | Call_Put string

text \<open>
  The state a \<open>MooncakeEngine\<close> works on: \<open>client_\<close> (\<open>None\<close> is the null pointer, as it
  is before \<open>Init\<close> and after \<open>tearDownAll\<close>), the allocator behind
  \<open>client_buffer_allocator_\<close>, the memory of the process, and the record of the calls made
  so far. The functions that use the allocator are reached only after \<open>Init\<close> has
  created it.
\<close>

record ('c, 'a) MooncakeEngine =
  client :: "'c option"
  client_buffer_allocator :: 'a
  memory :: "addr \<Rightarrow> char"
  calls :: "Call list"

text \<open>\<open>client_buffer_allocator_->allocate(n)\<close> and \<open>->deallocate(p, n)\<close>, recorded.\<close>

definition call_allocate ::
  "('c, 'a) Env \<Rightarrow> nat \<Rightarrow> ('c, 'a) MooncakeEngine \<Rightarrow> addr \<times> ('c, 'a) MooncakeEngine" where
  "call_allocate E n eng =
     (let (p, a) = allocate E (client_buffer_allocator eng) n
      in (p, eng\<lparr>client_buffer_allocator := a, calls := calls eng @ [Call_allocate n p]\<rparr>))"

definition call_deallocate ::
  "('c, 'a) Env \<Rightarrow> addr \<Rightarrow> nat \<Rightarrow> ('c, 'a) MooncakeEngine \<Rightarrow> ('c, 'a) MooncakeEngine" where
  "call_deallocate E p n eng =
     eng\<lparr>client_buffer_allocator := deallocate E (client_buffer_allocator eng) p n,
         calls := calls eng @ [Call_deallocate p n]\<rparr>"

text \<open>
  \<open>memcpy(dest, src, n)\<close> with the \<open>n\<close> source bytes given as a list, and the \<open>n\<close> bytes
  found at an address (what \<open>std::string::append(ptr, n)\<close> reads).
\<close>

definition memcpy :: "(addr \<Rightarrow> char) \<Rightarrow> addr \<Rightarrow> string \<Rightarrow> (addr \<Rightarrow> char)" where
  "memcpy m dest src = (\<lambda>a. if dest \<le> a \<and> a < dest + length src then src ! (a - dest) else m a)"

definition bytes_at :: "(addr \<Rightarrow> char) \<Rightarrow> addr \<Rightarrow> nat \<Rightarrow> string" where
  "bytes_at m p n = map m [p..<p + n]"

subsection \<open>Operations\<close>

text \<open>
  The loop \<open>for (auto &slice : slices) deallocate(slice.ptr, slice.size)\<close>, which stands
  in the failure branch of \<open>allocateSlices\<close> and is the body of \<open>freeSlices\<close>.
\<close>

fun deallocate_each ::
  "('c, 'a) Env \<Rightarrow> Slice list \<Rightarrow> ('c, 'a) MooncakeEngine \<Rightarrow> ('c, 'a) MooncakeEngine" where
  "deallocate_each E [] eng = eng"
| "deallocate_each E (s # slices) eng =
     deallocate_each E slices (call_deallocate E (ptr s) (size_slice s) eng)"

definition freeSlices ::
  "('c, 'a) Env \<Rightarrow> Slice list \<Rightarrow> ('c, 'a) MooncakeEngine \<Rightarrow> int \<times> ('c, 'a) MooncakeEngine" where
  "freeSlices E slices eng = (0, deallocate_each E slices eng)"

text \<open>
  \<open>allocateSlices(slices, value)\<close>, the overload \<open>put\<close> uses: the \<open>while\<close> loop from the
  value \<open>offset\<close> of its counter on. It returns the \<open>int\<close> the source returns, the
  \<open>slices\<close> vector and the engine's state. With \<open>kMaxSliceSize = 0\<close> and an allocator
  that never returns null the source loops forever, and the model has no result
  (\<open>None\<close>).
\<close>

partial_function (option) allocateSlices_loop ::
  "('c, 'a) Env \<Rightarrow> string \<Rightarrow> nat \<Rightarrow> Slice list \<Rightarrow> ('c, 'a) MooncakeEngine
     \<Rightarrow> (int \<times> Slice list \<times> ('c, 'a) MooncakeEngine) option" where
  [code]: "allocateSlices_loop E val offset slices eng =
     (if offset < length val then
        (let chunk_size = min (length val - offset) (kMaxSliceSize E);
             (p, eng1) = call_allocate E chunk_size eng
         in if p = nullptr then
              Some (1, [], deallocate_each E slices eng1)
            else
              allocateSlices_loop E val (offset + chunk_size)
                (slices @ [\<lparr>ptr = p, size_slice = chunk_size\<rparr>])
                (eng1\<lparr>memory := memcpy (memory eng1) p (take chunk_size (drop offset val))\<rparr>))
      else Some (0, slices, eng))"

definition allocateSlices ::
  "('c, 'a) Env \<Rightarrow> Slice list \<Rightarrow> string \<Rightarrow> ('c, 'a) MooncakeEngine
     \<Rightarrow> (int \<times> Slice list \<times> ('c, 'a) MooncakeEngine) option" where
  "allocateSlices E slices val eng = allocateSlices_loop E val 0 slices eng"

text \<open>
  \<open>allocateSlices(slices, object_info, length)\<close>, the overload \<open>Get\<close> uses: first the
  loop over the handles of the first replica, then the function. A failed
  \<open>assert(chunk_size <= kMaxSliceSize)\<close> aborts the process; otherwise the result is the
  returned \<open>int\<close>, the \<open>slices\<close> vector, \<open>length\<close> and the engine's state.
\<close>

datatype Abort = AssertionFailed

fun allocateSlices_handles ::
  "('c, 'a) Env \<Rightarrow> BufHandle list \<Rightarrow> Slice list \<Rightarrow> nat \<Rightarrow> ('c, 'a) MooncakeEngine
     \<Rightarrow> Abort + (int \<times> Slice list \<times> nat \<times> ('c, 'a) MooncakeEngine)" where
  "allocateSlices_handles E [] slices len eng = Inr (0, slices, len, eng)"
| "allocateSlices_handles E (handle # rest) slices len eng =
     (let chunk_size = size_handle handle in
      if \<not> chunk_size \<le> kMaxSliceSize E then Inl AssertionFailed
      else
        (let (p, eng1) = call_allocate E chunk_size eng
         in if p = nullptr then Inr (1, slices, len, eng1)
            else allocateSlices_handles E rest (slices @ [\<lparr>ptr = p, size_slice = chunk_size\<rparr>])
                   ((len + chunk_size) mod 2 ^ 64) eng1))"

definition allocateSlices_object ::
  "('c, 'a) Env \<Rightarrow> Slice list \<Rightarrow> ObjectInfo \<Rightarrow> ('c, 'a) MooncakeEngine
     \<Rightarrow> Abort + (int \<times> Slice list \<times> nat \<times> ('c, 'a) MooncakeEngine)" where
  "allocateSlices_object E slices object_info eng =
     (case replica_list object_info of
        [] \<Rightarrow> Inr (- 1, slices, 0, eng)
      | replica # _ \<Rightarrow> allocateSlices_handles E (handles replica) slices 0 eng)"

text \<open>
  The loop \<open>for (auto slice : slices) result.append(slice.ptr, slice.size)\<close>, with the
  string built so far; it is the body of \<open>exportSlices\<close> and the end of \<open>Get\<close>.
\<close>

fun append_slices :: "(addr \<Rightarrow> char) \<Rightarrow> Slice list \<Rightarrow> string \<Rightarrow> string" where
  "append_slices m [] result = result"
| "append_slices m (s # slices) result =
     append_slices m slices (result @ bytes_at m (ptr s) (size_slice s))"

definition exportSlices :: "(addr \<Rightarrow> char) \<Rightarrow> Slice list \<Rightarrow> nat \<Rightarrow> string" where
  "exportSlices m slices len = append_slices m slices []"

text \<open>
  \<open>put(key, value)\<close> and \<open>Put(key, value)\<close>. \<open>put\<close> starts from an empty \<open>slices\<close>
  vector.
\<close>

definition put ::
  "('c, 'a) Env \<Rightarrow> string \<Rightarrow> string \<Rightarrow> ('c, 'a) MooncakeEngine
     \<Rightarrow> (int \<times> ('c, 'a) MooncakeEngine) option" where
  "put E key val eng =
     (case client eng of
        None \<Rightarrow> Some (1, eng)
      | Some c \<Rightarrow>
         (case allocateSlices E [] val eng of
            None \<Rightarrow> None
          | Some (ret, slices, eng1) \<Rightarrow>
             if ret \<noteq> 0 then Some (ret, eng1)
             else
               (let (error_code, c1) = Client_Put E c key slices (memory eng1);
                    eng2 = eng1\<lparr>client := Some c1, calls := calls eng1 @ [Call_Put key]\<rparr>;
                    eng3 = snd (freeSlices E slices eng2)
                in if error_code \<noteq> OK then Some (1, eng3) else Some (0, eng3))))"

definition Put ::
  "('c, 'a) Env \<Rightarrow> string \<Rightarrow> string \<Rightarrow> ('c, 'a) MooncakeEngine
     \<Rightarrow> (bool \<times> ('c, 'a) MooncakeEngine) option" where
  "Put E key val eng =
     (case put E key val eng of
        None \<Rightarrow> None
      | Some (result, eng1) \<Rightarrow> Some (result = 0, eng1))"

text \<open>
  \<open>Get(key, value)\<close>. The argument \<open>val\<close> is what \<open>value\<close> points to, \<open>None\<close> for a null
  pointer; the result is the returned \<open>bool\<close>, the string \<open>value\<close> points to afterwards,
  and the engine's state.
\<close>

definition Get ::
  "('c, 'a) Env \<Rightarrow> string \<Rightarrow> string option \<Rightarrow> ('c, 'a) MooncakeEngine
     \<Rightarrow> Abort + (bool \<times> string option \<times> ('c, 'a) MooncakeEngine)" where
  "Get E key val eng =
     (case val of
        None \<Rightarrow> Inr (False, val, eng)
      | Some _ \<Rightarrow>
         (case client eng of
            None \<Rightarrow> Inr (False, val, eng)
          | Some c \<Rightarrow>
             (let ((error_code, object_info), c1) = Client_Query E c key;
                  eng1 = eng\<lparr>client := Some c1, calls := calls eng @ [Call_Query key]\<rparr>
              in if error_code \<noteq> OK then Inr (False, val, eng1)
                 else
                   (case allocateSlices_object E [] object_info eng1 of
                      Inl a \<Rightarrow> Inl a
                    | Inr (ret, slices, str_length, eng2) \<Rightarrow>
                       if ret \<noteq> 0 then Inr (False, val, eng2)
                       else
                         (let ((error_code, m), c2) =
                                Client_Get E c1 key object_info slices (memory eng2);
                              eng3 = eng2\<lparr>client := Some c2, memory := m,
                                          calls := calls eng2 @ [Call_Get key]\<rparr>
                          in if error_code \<noteq> OK then
                               Inr (False, val, snd (freeSlices E slices eng3))
                             else
                               Inr (True, Some (append_slices (memory eng3) slices []),
                                    snd (freeSlices E slices eng3)))))))"

subsection \<open>What the master and the client do with the slice lengths\<close>

text \<open>
  The parameter checks at the head of \<open>MasterService::PutStart\<close> (master\_service.cpp):
  the loop over \<open>slice_lengths\<close> with its running \<open>uint64_t total_length\<close>, then the
  whole validation; \<open>OK\<close> stands for "not rejected", after which \<open>PutStart\<close> goes on to
  allocate one handle of \<open>slice_lengths[j]\<close> bytes per slice.
\<close>

fun validate_slice_lengths :: "nat \<Rightarrow> nat list \<Rightarrow> nat \<Rightarrow> ErrorCode + nat" where
  "validate_slice_lengths K [] total_length = Inr total_length"
| "validate_slice_lengths K (l # ls) total_length =
     (if l > K then Inl INVALID_PARAMS
      else validate_slice_lengths K ls ((total_length + l) mod 2 ^ 64))"

definition PutStart_validate :: "nat \<Rightarrow> string \<Rightarrow> nat \<Rightarrow> nat list \<Rightarrow> nat \<Rightarrow> ErrorCode" where
  "PutStart_validate K key value_length slice_lengths replica_num =
     (if replica_num = 0 \<or> value_length = 0 \<or> key = [] then INVALID_PARAMS
      else case validate_slice_lengths K slice_lengths 0 of
             Inl e \<Rightarrow> e
           | Inr total_length \<Rightarrow> if total_length \<noteq> value_length then INVALID_PARAMS else OK)"

text \<open>
  The \<open>value_length\<close> that \<open>Client::Put\<close> (client.cpp) sends with the slice lengths: the
  loop \<open>slice_size += slices[i].size\<close> on a \<open>size_t\<close>.
\<close>

fun Put_slice_size :: "Slice list \<Rightarrow> nat \<Rightarrow> nat" where
  "Put_slice_size [] slice_size = slice_size"
| "Put_slice_size (s # slices) slice_size =
     Put_slice_size slices ((slice_size + size_slice s) mod 2 ^ 64)"

subsection \<open>The object metadata of the master\<close>

text \<open>
  A replica of the master: its handles, in slice order, and its status. The enumeration
  \<open>ReplicaStatus\<close> and the class \<open>Replica\<close> are declared in types.h, which is not among the
  sources; master\_service.cpp constructs a replica from its handles and
  \<open>ReplicaStatus::PROCESSING\<close>, and compares with \<open>PROCESSING\<close> and \<open>COMPLETE\<close>. A handle
  of the master is written as the \<open>BufHandle\<close> that describes it to a client.
\<close>

datatype ReplicaStatus = PROCESSING | COMPLETE | FAILED

record Replica =
  replica_handles :: "BufHandle list"
  status :: ReplicaStatus

text \<open>
  Modelled from the spec: \<open>ObjectMetadata::GrantLease\<close> and the \<open>lease_timeout\<close> field
  are declared in master\_service.h, which is not among the sources (master\_service.cpp
  only calls \<open>metadata.GrantLease(default_kv_lease_ttl_)\<close> and
  \<open>metadata.GrantLease(0)\<close>). The specification says: \<open>lease_timeout\<close> is a monotonic
  time point, and \<open>GrantLease(ttl)\<close> sets it to \<open>max(lease_timeout, now + ttl)\<close>. Time
  points are integers (ticks of the monotonic clock), \<open>ttl\<close> is an unsigned duration, and
  \<open>now\<close> is the clock reading at the call. The fields \<open>replicas\<close> and \<open>size\<close> are those
  master\_service.cpp reads and constructs the metadata from.
\<close>

record ObjectMetadata =
  replicas :: "Replica list"
  size_object :: nat
  lease_timeout :: int

definition GrantLease :: "int \<Rightarrow> nat \<Rightarrow> ObjectMetadata \<Rightarrow> ObjectMetadata" where
  "GrantLease now ttl metadata =
     metadata\<lparr>lease_timeout := max (lease_timeout metadata) (now + int ttl)\<rparr>"




text \<open>
  The state of the master that \<open>PutStart\<close> and \<open>PutEnd\<close> work on: the object metadata
  of all shards (the shard of a key is a function of the key, and each operation locks
  the one shard of its key), the allocators, and the flag \<open>need_eviction_\<close>.
\<close>

record 'm MasterService =
  metadata :: "string \<rightharpoonup> ObjectMetadata"
  allocators :: 'm
  need_eviction :: bool







subsection \<open>Notions used to state the properties\<close>

text \<open>The call that allocated a slice, and the call that gives it back.\<close>

definition alloc_call :: "Slice \<Rightarrow> Call" where
  "alloc_call s = Call_allocate (size_slice s) (ptr s)"

definition dealloc_call :: "Slice \<Rightarrow> Call" where
  "dealloc_call s = Call_deallocate (ptr s) (size_slice s)"

text \<open>
  The allocator's state after it has allocated a list of slices one after the other,
  each call returning the slice's pointer; and after it has been given a list of slices
  back, in order.
\<close>

fun allocated_from :: "('c, 'a) Env \<Rightarrow> 'a \<Rightarrow> Slice list \<Rightarrow> 'a \<Rightarrow> bool" where
  "allocated_from E a [] a' \<longleftrightarrow> a' = a"
| "allocated_from E a (s # slices) a' \<longleftrightarrow>
     fst (allocate E a (size_slice s)) = ptr s
     \<and> allocated_from E (snd (allocate E a (size_slice s))) slices a'"

definition deallocated_from :: "('c, 'a) Env \<Rightarrow> 'a \<Rightarrow> Slice list \<Rightarrow> 'a" where
  "deallocated_from E a slices = foldl (\<lambda>a s. deallocate E a (ptr s) (size_slice s)) a slices"

text \<open>
  Two buffers that share no byte, and a list of buffers no two of which share a byte:
  what an allocator owes its caller for buffers that are live together.
\<close>

definition separate :: "Slice \<Rightarrow> Slice \<Rightarrow> bool" where
  "separate s t \<longleftrightarrow>
     size_slice s = 0 \<or> size_slice t = 0 \<or> ptr s + size_slice s \<le> ptr t \<or> ptr t + size_slice t \<le> ptr s"

fun pairwise_separate :: "Slice list \<Rightarrow> bool" where
  "pairwise_separate [] = True"
| "pairwise_separate (s # slices) = (list_all (separate s) slices \<and> pairwise_separate slices)"

text \<open>The bytes of a list of slices, one slice after the other.\<close>

definition contents :: "(addr \<Rightarrow> char) \<Rightarrow> Slice list \<Rightarrow> string" where
  "contents m slices = concat (map (\<lambda>s. bytes_at m (ptr s) (size_slice s)) slices)"

subsection \<open>A small instance\<close>

text \<open>
  An environment to run the engine in: \<open>kMaxSliceSize = 2\<close>; a bump allocator over the
  addresses below \<open>64\<close> that never reuses memory; and a client whose store keeps the
  chunks of one object, hands out one handle per chunk, and on \<open>Get\<close> copies chunk \<open>i\<close>
  into slice \<open>i\<close>.
\<close>

definition example_env :: "(string list, nat) Env" where
  "example_env =
     \<lparr>kMaxSliceSize = 2,
      allocate = (\<lambda>a n. if a + n \<le> 64 then (a, a + n) else (nullptr, a)),
      deallocate = (\<lambda>a p n. a),
      Client_Query = (\<lambda>c key.
        ((OK, \<lparr>replica_list =
                 [\<lparr>handles = map (\<lambda>chunk. \<lparr>segment_name = ''S1'', size_handle = length chunk,
                                             buffer = 0\<rparr>) c\<rparr>]\<rparr>), c)),
      Client_Get = (\<lambda>c key info slices m.
        ((OK, fold (\<lambda>(s, chunk) m. memcpy m (ptr s) chunk) (zip slices c) m), c)),
      Client_Put = (\<lambda>c key slices m. (OK, map (\<lambda>s. bytes_at m (ptr s) (size_slice s)) slices))\<rparr>"

definition example_engine :: "nat \<Rightarrow> string list \<Rightarrow> (string list, nat) MooncakeEngine" where
  "example_engine a c =
     \<lparr>client = Some c, client_buffer_allocator = a, memory = (\<lambda>_. CHR ''.''), calls = []\<rparr>"

definition example_slices :: "Slice list" where
  "example_slices = [\<lparr>ptr = 1, size_slice = 2\<rparr>, \<lparr>ptr = 3, size_slice = 2\<rparr>,
                     \<lparr>ptr = 5, size_slice = 1\<rparr>]"

definition example_chunks :: "string list" where
  "example_chunks = [''ab'', ''cd'', ''e'']"

definition example_info :: ObjectInfo where
  "example_info =
     \<lparr>replica_list =
        [\<lparr>handles = [\<lparr>segment_name = ''S1'', size_handle = 2, buffer = 0\<rparr>,
                     \<lparr>segment_name = ''S1'', size_handle = 2, buffer = 0\<rparr>,
                     \<lparr>segment_name = ''S1'', size_handle = 1, buffer = 0\<rparr>]\<rparr>]\<rparr>"

text \<open>
  The same environment with an allocator that keeps the list of the buffers it has handed
  out and not got back.
\<close>

definition tracking_env :: "(string list, nat \<times> (addr \<times> nat) list) Env" where
  "tracking_env =
     \<lparr>kMaxSliceSize = 2,
      allocate = (\<lambda>(next, live) n.
        if next + n \<le> 64 then (next, (next + n, (next, n) # live)) else (nullptr, (next, live))),
      deallocate = (\<lambda>(next, live) p n. (next, remove1 (p, n) live)),
      Client_Query = Client_Query example_env,
      Client_Get = Client_Get example_env,
      Client_Put = Client_Put example_env\<rparr>"

definition tracking_engine ::
  "nat \<times> (addr \<times> nat) list \<Rightarrow> string list
     \<Rightarrow> (string list, nat \<times> (addr \<times> nat) list) MooncakeEngine" where
  "tracking_engine a c =
     \<lparr>client = Some c, client_buffer_allocator = a, memory = (\<lambda>_. CHR ''.''), calls = []\<rparr>"





section \<open>Properties of the master's entry point\<close>

lemma handlers_main_server:
  "handlers (main_server flags hw) =
     [ExistKey, GetReplicaList, PutStart, PutEnd, PutRevoke, Remove, RemoveAll,
      MountSegment, UnmountSegment]"
  by (simp add: main_server_def register_handler_def)

lemma thread_main_server:
  "thread (main_server flags hw) = min (FLAGS_max_threads flags) (static_cast_int hw)"
  by (simp add: main_server_def register_handler_def)

lemma port_main_server: "port (main_server flags hw) = FLAGS_port flags"
  by (simp add: main_server_def register_handler_def)

text \<open>
  C5, as stated, fails: \<open>Ping\<close> belongs to the specified request surface, and \<open>main\<close>
  run with the default flags on an 8-thread machine registers no handler for it.
\<close>

theorem C5_ping_not_registered:
  "Ping \<in> set spec_request_surface \<and> Ping \<notin> set (handlers (main_server default_flags 8))"
  by (simp add: spec_request_surface_def handlers_main_server)

text \<open>
  C5, amended: whatever the flags and the machine, \<open>main\<close> registers exactly nine
  handlers, one for each of \<open>ExistKey\<close>, \<open>GetReplicaList\<close>, \<open>PutStart\<close>, \<open>PutEnd\<close>,
  \<open>PutRevoke\<close>, \<open>Remove\<close>, \<open>RemoveAll\<close>, \<open>MountSegment\<close> and \<open>UnmountSegment\<close>; no
  operation is registered twice, every registered operation is part of the specified
  request surface, and the operations of the request surface left without a handler are
  exactly \<open>ReMountSegment\<close>, \<open>Ping\<close> and the five batch forms.
\<close>

theorem C5_registered_handlers:
  "set (handlers (main_server flags hw)) =
     {ExistKey, GetReplicaList, PutStart, PutEnd, PutRevoke, Remove, RemoveAll,
      MountSegment, UnmountSegment}
   \<and> distinct (handlers (main_server flags hw))
   \<and> length (handlers (main_server flags hw)) = 9
   \<and> set (handlers (main_server flags hw)) \<subseteq> set spec_request_surface
   \<and> set spec_request_surface - set (handlers (main_server flags hw)) =
       {ReMountSegment, Ping, BatchPutStart, BatchPutEnd, BatchPutRevoke,
        BatchGetReplicaList, BatchExistKey}"
  unfolding handlers_main_server spec_request_surface_def
  by (intro conjI; simp; blast)

text \<open>
  C6: the RPC server is constructed with \<open>min(max_threads, hardware_concurrency)\<close>
  handler threads and with the configured port, for every hardware concurrency that fits
  the \<open>int\<close> it is cast to.
\<close>

theorem C6_thread_pool_size:
  assumes "unat hw < 2 ^ 31"
  shows "thread (main_server flags hw) = min (FLAGS_max_threads flags) (int (unat hw))
       \<and> port (main_server flags hw) = FLAGS_port flags"
proof -
  have "int (unat hw) < int (2 ^ 31)"
    using assms by (rule iffD2 [OF of_nat_less_iff])
  then have "uint hw < 2 ^ 31"
    by simp
  moreover have "- (2 ^ 31) \<le> uint hw"
    by (rule order_trans [of _ 0]) simp_all
  ultimately have "signed_take_bit 31 (uint hw) = uint hw"
    by (rule signed_take_bit_int_eq_self [rotated])
  then have "static_cast_int hw = int (unat hw)"
    by (simp add: static_cast_int_def sint_uint)
  then show ?thesis
    by (simp add: thread_main_server port_main_server)
qed

theorem C6_thread_pool_size_witness:
  "unat (8 :: 32 word) < 2 ^ 31
   \<and> thread (main_server default_flags 8) = 4
   \<and> port (main_server default_flags 8) = 50051"
  using C6_thread_pool_size [of 8 default_flags]
  by (simp add: default_flags_def)


section \<open>Properties of leases\<close>

text \<open>
  C7: \<open>GrantLease(ttl)\<close> sets \<open>lease_timeout\<close> to \<open>max(lease_timeout, now + ttl)\<close>, and
  across two successive calls, at any two clock readings and with any two ttls,
  \<open>lease_timeout\<close> never decreases.
\<close>

theorem C7_lease_monotone:
  "lease_timeout (GrantLease now ttl m) = max (lease_timeout m) (now + int ttl)
   \<and> lease_timeout m \<le> lease_timeout (GrantLease now ttl m)
   \<and> lease_timeout (GrantLease now ttl m)
       \<le> lease_timeout (GrantLease now' ttl' (GrantLease now ttl m))
   \<and> lease_timeout m \<le> lease_timeout (GrantLease now' ttl' (GrantLease now ttl m))"
  by (simp add: GrantLease_def)


section \<open>Properties of the benchmark driver\<close>

lemma int32_id: "- (2 ^ 31) \<le> x \<Longrightarrow> x < 2 ^ 31 \<Longrightarrow> int32 x = Inr x"
  by (simp add: int32_def)

lemma upto_head: "i \<le> j \<Longrightarrow> [i..j] = i # [i + 1..j]"
  by (simp add: upto_rec1)

lemma launch_workers_eq:
  assumes "0 \<le> n" "0 < t" "n < 2 ^ 31" "t < 2 ^ 31" "0 \<le> i" "i \<le> t"
  shows "launch_workers t (n div t) (n mod t) i threads =
           Inr (threads @ map (range_of n t) [i..t - 1])"
  using assms(5,6)
proof (induction "nat (t - i)" arbitrary: i threads)
  case 0
  then have "i = t" by simp
  then show ?case by simp
next
  case (Suc k)
  define q where "q = n div t"
  define r where "r = n mod t"
  have lt: "i < t" using Suc by linarith
  have q0: "0 \<le> q" using assms by (simp add: q_def pos_imp_zdiv_nonneg_iff)
  have n_eq: "t * q + r = n" by (simp add: q_def r_def)
  have r0: "0 \<le> r" "r < t" using assms by (simp_all add: r_def)
  have "(i + 1) * q \<le> t * q"
    using lt q0 by (intro mult_right_mono) auto
  then have iq: "i * q + q \<le> t * q" by (simp add: distrib_right)
  have iq0: "0 \<le> i * q" using Suc.prems q0 by simp
  have tq: "t * q \<le> n" using n_eq r0 by linarith
  have s: "int32 (i * q) = Inr (i * q)"
    using iq iq0 tq q0 assms(3) by (intro int32_id) linarith+
  have e0: "int32 (i * q + q) = Inr (i * q + q)"
    using iq iq0 tq q0 assms(3) by (intro int32_id) linarith+
  have e1: "(if i = t - 1 then int32 (i * q + q + r) else Inr (i * q + q)) =
      Inr ((i + 1) * q + (if i = t - 1 then r else 0))"
  proof (cases "i = t - 1")
    case True
    then have "t = i + 1" by simp
    then have a: "(i + 1) * q + r = n" using n_eq by simp
    from a have b: "i * q + q + r = n" by (simp add: distrib_right)
    have c: "int32 n = Inr n"
      using assms(1,3) by (intro int32_id) linarith+
    show ?thesis
      by (simp only: if_P [OF True] a b c)
  next
    case False
    then show ?thesis by (simp add: distrib_right)
  qed
  have i1: "int32 (i + 1) = Inr (i + 1)"
    using lt Suc.prems assms(4) by (intro int32_id) linarith+
  have k: "k = nat (t - (i + 1))" using Suc.hyps(2) by linarith
  have IH: "launch_workers t q r (i + 1) (threads @ [range_of n t i]) =
      Inr ((threads @ [range_of n t i]) @ map (range_of n t) [i + 1..t - 1])"
    unfolding q_def r_def using Suc.hyps(1) [OF k] Suc.prems lt by simp
  have up: "[i..t - 1] = i # [i + 1..t - 1]"
    using lt by (intro upto_head) simp
  have ro: "range_of n t i =
      \<lparr>thread_id = i, start_idx = i * q, end_idx = (i + 1) * q + (if i = t - 1 then r else 0)\<rparr>"
    by (simp add: range_of_def q_def r_def)
  have step: "launch_workers t q r i threads =
      launch_workers t q r (i + 1) (threads @ [range_of n t i])"
    apply (subst launch_workers.simps)
    apply (simp only: lt if_True s e0 e1 i1 sum.case ro)
    done
  show ?case
    using step IH up by (simp add: q_def r_def del: launch_workers.simps)
qed

lemma Run_partition_eq:
  assumes "0 \<le> n" "0 < t" "n < 2 ^ 31" "t < 2 ^ 31"
  shows "Run_partition n t = Inr (map (range_of n t) [0..t - 1])"
proof -
  have q: "0 \<le> n div t" "n div t \<le> n"
    using assms by (simp_all add: pos_imp_zdiv_nonneg_iff int_div_less_self div_by_1 zdiv_mono2 [of n 1 t, simplified])
  have d: "int_div n t = Inr (n div t)"
    using assms q by (simp add: int_div_def int32_def sgn_if)
  have r: "int_rem n t = Inr (n mod t)"
    using assms d by (cases "n = 0") (simp_all add: int_rem_def sgn_if)
  show ?thesis
    using d r launch_workers_eq [OF assms, of 0 "[]"] assms(2)
    by (simp add: Run_partition_def del: launch_workers.simps)
qed


lemma sum_lengths_prefix:
  assumes "0 < t" "- 1 \<le> k" "k < t - 1"
  shows "(\<Sum>w\<leftarrow>map (range_of n t) [0..k]. end_idx w - start_idx w) = (k + 1) * (n div t)"
  using assms(2,3)
proof (induction k rule: int_ge_induct)
  case base
  then show ?case by simp
next
  case (step k)
  have "[0..k + 1] = [0..k] @ [k + 1]"
    using step.hyps by (simp add: upto_rec2)
  then show ?case
    using step by (simp add: range_of_def distrib_right)
qed

lemma sum_lengths:
  assumes "0 < t"
  shows "(\<Sum>w\<leftarrow>map (range_of n t) [0..t - 1]. end_idx w - start_idx w) = n"
proof -
  have "[0..t - 1] = [0..t - 2] @ [t - 1]"
    using assms upto_rec2 [of 0 "t - 1"] by simp
  moreover have "(\<Sum>w\<leftarrow>map (range_of n t) [0..t - 2]. end_idx w - start_idx w) = (t - 1) * (n div t)"
    using sum_lengths_prefix [of t "t - 2" n] assms by simp
  moreover have "(t - 1) * (n div t) + (n div t + n mod t) = n"
    by (simp add: algebra_simps)
  ultimately show ?thesis
    by (simp add: range_of_def distrib_right)
qed

lemma nth_ranges:
  assumes "i < nat t"
  shows "map (range_of n t) [0..t - 1] ! i = range_of n t (int i)"
  using assms by (simp add: nth_upto)

lemma chain_cover:
  fixes a b :: "nat \<Rightarrow> int"
  assumes "\<And>i. i \<le> k \<Longrightarrow> a i \<le> b i" "\<And>i. i < k \<Longrightarrow> b i = a (Suc i)"
  shows "(\<Union>i\<le>k. {a i..<b i}) = {a 0..<b k}"
proof -
  have "(\<Union>i\<le>j. {a i..<b i}) = {a 0..<b j} \<and> a 0 \<le> b j" if "j \<le> k" for j
    using that
  proof (induction j)
    case 0
    then show ?case using assms(1) [of 0] by simp
  next
    case (Suc j)
    then have IH: "(\<Union>i\<le>j. {a i..<b i}) = {a 0..<b j}" "a 0 \<le> b j" by simp_all
    have eq: "b j = a (Suc j)" using Suc.prems by (intro assms(2)) simp
    have le: "a (Suc j) \<le> b (Suc j)" using Suc.prems by (intro assms(1))
    have "(\<Union>i\<le>Suc j. {a i..<b i}) = {a 0..<b j} \<union> {b j..<b (Suc j)}"
      using IH(1) eq by (simp add: atMost_Suc Un_commute)
    also have "\<dots> = {a 0..<b (Suc j)}"
      using IH(2) eq le by (intro ivl_disj_un) simp_all
    finally show ?case using IH(2) eq le by simp
  qed
  then show ?thesis by simp
qed

text \<open>
  C9: for \<open>num_threads \<ge> 1\<close> and \<open>num_operations \<ge> 0\<close> (both \<open>int\<close>, so below
  \<open>2^31\<close>), \<open>Run\<close> launches \<open>num_threads\<close> workers without overflow; worker \<open>i\<close>
  gets \<open>[i * q, (i + 1) * q)\<close> with \<open>q = num_operations / num_threads\<close>, the last one
  extended by \<open>num_operations % num_threads\<close>; the ranges are contiguous from \<open>0\<close> to
  \<open>num_operations\<close>, pairwise disjoint, cover exactly \<open>[0, num_operations)\<close>, and their
  lengths sum to \<open>num_operations\<close>.
\<close>

theorem C9_partition:
  assumes "1 \<le> t" "0 \<le> n" "n < 2 ^ 31" "t < 2 ^ 31"
  shows "\<exists>ws. Run_partition n t = Inr ws
    \<and> length ws = nat t
    \<and> (\<forall>i < nat t. ws ! i =
          \<lparr>thread_id = int i, start_idx = int i * (n div t),
           end_idx = (int i + 1) * (n div t) + (if int i = t - 1 then n mod t else 0)\<rparr>)
    \<and> start_idx (ws ! 0) = 0
    \<and> end_idx (ws ! (nat t - 1)) = n
    \<and> (\<forall>i. Suc i < nat t \<longrightarrow> end_idx (ws ! i) = start_idx (ws ! Suc i))
    \<and> (\<forall>i < nat t. start_idx (ws ! i) \<le> end_idx (ws ! i))
    \<and> (\<forall>i j. i < j \<and> j < nat t \<longrightarrow>
          {start_idx (ws ! i)..<end_idx (ws ! i)} \<inter> {start_idx (ws ! j)..<end_idx (ws ! j)} = {})
    \<and> (\<Union>w \<in> set ws. {start_idx w..<end_idx w}) = {0..<n}
    \<and> (\<Sum>w\<leftarrow>ws. end_idx w - start_idx w) = n"
proof -
  define ws where "ws = map (range_of n t) [0..t - 1]"
  define q where "q = n div t"
  define r where "r = n mod t"
  have t0: "0 < t" using assms by simp
  have q0: "0 \<le> q" using assms by (simp add: q_def pos_imp_zdiv_nonneg_iff)
  have r0: "0 \<le> r" using t0 by (simp add: r_def)
  have n_eq: "t * q + r = n" by (simp add: q_def r_def)
  have run: "Run_partition n t = Inr ws"
    unfolding ws_def using assms by (intro Run_partition_eq) simp_all
  have len: "length ws = nat t" by (simp add: ws_def)
  have nth: "ws ! i = \<lparr>thread_id = int i, start_idx = int i * q,
           end_idx = (int i + 1) * q + (if int i = t - 1 then r else 0)\<rparr>" if "i < nat t" for i
    using nth_ranges [OF that] by (simp add: ws_def range_of_def q_def r_def)
  have first: "start_idx (ws ! 0) = 0" using nth [of 0] t0 by simp
  have last: "end_idx (ws ! (nat t - 1)) = n"
  proof -
    have "int (nat t - 1) = t - 1" using t0 by simp
    moreover have "nat t - 1 < nat t" using t0 by simp
    ultimately show ?thesis using nth [of "nat t - 1"] n_eq by (simp add: algebra_simps)
  qed
  have adj: "end_idx (ws ! i) = start_idx (ws ! Suc i)" if "Suc i < nat t" for i
  proof -
    have "int i \<noteq> t - 1" using that by linarith
    then show ?thesis using nth [of i] nth [of "Suc i"] that by (simp add: algebra_simps)
  qed
  have ord: "start_idx (ws ! i) \<le> end_idx (ws ! i)" if "i < nat t" for i
    using nth [OF that] q0 r0 by (simp add: distrib_right)
  have mono: "end_idx (ws ! i) \<le> start_idx (ws ! j)" if "i < j" "j < nat t" for i j
  proof -
    have "int i \<noteq> t - 1" using that by linarith
    moreover have "(int i + 1) * q \<le> int j * q"
      using that q0 by (intro mult_right_mono) auto
    ultimately show ?thesis using nth [of i] nth [of j] that by simp
  qed
  have disj: "{start_idx (ws ! i)..<end_idx (ws ! i)} \<inter> {start_idx (ws ! j)..<end_idx (ws ! j)} = {}"
    if "i < j \<and> j < nat t" for i j
    using mono [of i j] that by auto
  have total: "(\<Sum>w\<leftarrow>ws. end_idx w - start_idx w) = n"
    unfolding ws_def by (rule sum_lengths [OF t0])
  have cover: "(\<Union>w \<in> set ws. {start_idx w..<end_idx w}) = {0..<n}"
  proof -
    have "set ws = (\<lambda>i. ws ! i) ` {..nat t - 1}"
    proof -
      have "{..<length ws} = {..nat t - 1}" using t0 len by auto
      then show ?thesis by (simp add: set_conv_nth image_def lessThan_def atMost_def) blast
    qed
    then have "(\<Union>w \<in> set ws. {start_idx w..<end_idx w}) =
        (\<Union>i\<le>nat t - 1. {start_idx (ws ! i)..<end_idx (ws ! i)})"
      by simp
    also have "\<dots> = {start_idx (ws ! 0)..<end_idx (ws ! (nat t - 1))}"
    proof (rule chain_cover)
      fix i assume "i \<le> nat t - 1"
      then show "start_idx (ws ! i) \<le> end_idx (ws ! i)" using t0 by (intro ord) linarith
    next
      fix i assume "i < nat t - 1"
      then show "end_idx (ws ! i) = start_idx (ws ! Suc i)" by (intro adj) linarith
    qed
    finally show ?thesis using first last by simp
  qed
  show ?thesis
    apply (rule exI [of _ ws])
    unfolding q_def [symmetric] r_def [symmetric]
    using run len nth first last adj ord disj total cover
    by blast
qed


theorem C9_partition_witness:
  "Run_partition 10 3 =
     Inr [\<lparr>thread_id = 0, start_idx = 0, end_idx = 3\<rparr>,
          \<lparr>thread_id = 1, start_idx = 3, end_idx = 6\<rparr>,
          \<lparr>thread_id = 2, start_idx = 6, end_idx = 10\<rparr>]"
proof -
  have h: "(1::int) \<le> 3" "(0::int) \<le> 10" "(10::int) < 2 ^ 31" "(3::int) < 2 ^ 31"
    by simp_all
  from C9_partition [OF h] show ?thesis
  proof (elim exE conjE)
  fix ws
  assume run: "Run_partition 10 3 = Inr ws" and len: "length ws = nat 3" and
    nth: "\<forall>i < nat 3. ws ! i =
          \<lparr>thread_id = int i, start_idx = int i * (10 div 3),
           end_idx = (int i + 1) * (10 div 3) + (if int i = 3 - 1 then 10 mod 3 else 0)\<rparr>"
  have "ws ! 0 = \<lparr>thread_id = 0, start_idx = 0, end_idx = 3\<rparr>"
    using nth [rule_format, of 0] by simp
  moreover have "ws ! 1 = \<lparr>thread_id = 1, start_idx = 3, end_idx = 6\<rparr>"
    using nth [rule_format, of 1] by simp
  moreover have "ws ! Suc (Suc 0) = \<lparr>thread_id = 2, start_idx = 6, end_idx = 10\<rparr>"
    using nth [rule_format, of "Suc (Suc 0)"] by simp
  moreover have "length ws = 3" using len by simp
  ultimately have "ws = [\<lparr>thread_id = 0, start_idx = 0, end_idx = 3\<rparr>,
          \<lparr>thread_id = 1, start_idx = 3, end_idx = 6\<rparr>,
          \<lparr>thread_id = 2, start_idx = 6, end_idx = 10\<rparr>]"
    by (intro nth_equalityI) (auto simp: less_Suc_eq numeral_3_eq_3)
  then show ?thesis using run by simp
  qed
qed


section \<open>Properties of the store engine\<close>

subsection \<open>The allocator calls\<close>

lemma calls_deallocate_each:
  "calls (deallocate_each E slices eng) = calls eng @ map dealloc_call slices"
  by (induction slices arbitrary: eng) (simp_all add: call_deallocate_def dealloc_call_def)

lemma memory_deallocate_each: "memory (deallocate_each E slices eng) = memory eng"
  by (induction slices arbitrary: eng) (simp_all add: call_deallocate_def)

lemma client_deallocate_each: "client (deallocate_each E slices eng) = client eng"
  by (induction slices arbitrary: eng) (simp_all add: call_deallocate_def)

lemma call_allocate_snd:
  "calls (snd (call_allocate E n eng)) = calls eng @ [Call_allocate n (fst (call_allocate E n eng))]"
  "memory (snd (call_allocate E n eng)) = memory eng"
  "client (snd (call_allocate E n eng)) = client eng"
  by (simp_all add: call_allocate_def split_beta)

lemma call_allocate_fields:
  assumes "call_allocate E n eng = (p, eng1)"
  shows "calls eng1 = calls eng @ [Call_allocate n p]"
    and "memory eng1 = memory eng"
    and "client eng1 = client eng"
  using call_allocate_snd [of E n eng] by (simp_all add: assms)

lemma allocator_deallocate_each:
  "client_buffer_allocator (deallocate_each E slices eng)
     = deallocated_from E (client_buffer_allocator eng) slices"
  by (induction slices arbitrary: eng) (simp_all add: call_deallocate_def deallocated_from_def)

lemma call_allocate_allocator:
  assumes "call_allocate E n eng = (p, eng1)"
  shows "allocate E (client_buffer_allocator eng) n = (p, client_buffer_allocator eng1)"
proof -
  have "fst (call_allocate E n eng) = fst (allocate E (client_buffer_allocator eng) n)"
    "client_buffer_allocator (snd (call_allocate E n eng))
       = snd (allocate E (client_buffer_allocator eng) n)"
    by (simp_all add: call_allocate_def split_beta)
  with assms show ?thesis by (simp add: prod_eq_iff)
qed

subsection \<open>The loop of \<open>allocateSlices(slices, value)\<close>\<close>

text \<open>
  One turn of the loop, for any function \<open>f\<close> in the place of the recursive call: either
  the loop is over, or the allocation failed, or a slice was added and \<open>f\<close> goes on.
\<close>

lemma loop_body_cases:
  assumes "(if offset < length val then
        (let chunk_size = min (length val - offset) (kMaxSliceSize E);
             (p, eng1) = call_allocate E chunk_size eng
         in if p = nullptr then
              Some (1, [], deallocate_each E slices eng1)
            else
              f E val (offset + chunk_size)
                (slices @ [\<lparr>ptr = p, size_slice = chunk_size\<rparr>])
                (eng1\<lparr>memory := memcpy (memory eng1) p (take chunk_size (drop offset val))\<rparr>))
      else Some (0, slices, eng)) = Some r"
  obtains
    (finished) "\<not> offset < length val" "r = (0, slices, eng)"
  | (failed) p eng1 where "offset < length val"
      "call_allocate E (min (length val - offset) (kMaxSliceSize E)) eng = (p, eng1)"
      "p = nullptr" "r = (1, [], deallocate_each E slices eng1)"
  | (step) p eng1 where "offset < length val"
      "call_allocate E (min (length val - offset) (kMaxSliceSize E)) eng = (p, eng1)"
      "p \<noteq> nullptr"
      "f E val (offset + min (length val - offset) (kMaxSliceSize E))
         (slices @ [\<lparr>ptr = p, size_slice = min (length val - offset) (kMaxSliceSize E)\<rparr>])
         (eng1\<lparr>memory := memcpy (memory eng1) p
            (take (min (length val - offset) (kMaxSliceSize E)) (drop offset val))\<rparr>) = Some r"
proof (cases "offset < length val")
  case False
  with assms have "r = (0, slices, eng)" by simp
  with False show ?thesis by (rule finished)
next
  case True
  obtain p eng1 where al:
    "call_allocate E (min (length val - offset) (kMaxSliceSize E)) eng = (p, eng1)"
    by (cases "call_allocate E (min (length val - offset) (kMaxSliceSize E)) eng")
  show ?thesis
  proof (cases "p = nullptr")
    case True
    with assms \<open>offset < length val\<close> al have "r = (1, [], deallocate_each E slices eng1)"
      by (simp add: Let_def)
    with \<open>offset < length val\<close> al True show ?thesis by (rule failed)
  next
    case False
    with assms True al have
      "f E val (offset + min (length val - offset) (kMaxSliceSize E))
         (slices @ [\<lparr>ptr = p, size_slice = min (length val - offset) (kMaxSliceSize E)\<rparr>])
         (eng1\<lparr>memory := memcpy (memory eng1) p
            (take (min (length val - offset) (kMaxSliceSize E)) (drop offset val))\<rparr>) = Some r"
      by (simp add: Let_def)
    with True al False show ?thesis by (rule step)
  qed
qed

lemma allocateSlices_loop_success:
  assumes "allocateSlices_loop E val offset slices eng = Some r"
  shows "fst r = 0 \<longrightarrow> offset \<le> length val \<longrightarrow>
     (\<exists>new. fst (snd r) = slices @ new
        \<and> sum_list (map size_slice new) = length val - offset
        \<and> (\<forall>s \<in> set new. size_slice s \<le> kMaxSliceSize E \<and> ptr s \<noteq> nullptr)
        \<and> (offset < length val \<longrightarrow> new \<noteq> [])
        \<and> calls (snd (snd r)) = calls eng @ map alloc_call new)"
proof (rule allocateSlices_loop.raw_induct [where P = "\<lambda>E val offset slices eng r.
    fst r = 0 \<longrightarrow> offset \<le> length val \<longrightarrow>
     (\<exists>new. fst (snd r) = slices @ new
        \<and> sum_list (map size_slice new) = length val - offset
        \<and> (\<forall>s \<in> set new. size_slice s \<le> kMaxSliceSize E \<and> ptr s \<noteq> nullptr)
        \<and> (offset < length val \<longrightarrow> new \<noteq> [])
        \<and> calls (snd (snd r)) = calls eng @ map alloc_call new)", OF _ assms], goal_cases)
  case (1 loop E val offset slices eng r)
  from 1(2) show ?case
  proof (cases rule: loop_body_cases)
    case finished
    then show ?thesis by simp
  next
    case (failed p eng1)
    then show ?thesis by simp
  next
    case (step p eng1)
    define chunk where "chunk = min (length val - offset) (kMaxSliceSize E)"
    let ?s = "\<lparr>ptr = p, size_slice = chunk\<rparr>"
    let ?eng2 = "eng1\<lparr>memory := memcpy (memory eng1) p (take chunk (drop offset val))\<rparr>"
    have rec: "loop E val (offset + chunk) (slices @ [?s]) ?eng2 = Some r"
      using step(4) by (simp add: chunk_def)
    note IH = 1(1) [OF rec]
    show ?thesis
    proof (intro impI)
      assume r0: "fst r = 0" and "offset \<le> length val"
      have le: "offset + chunk \<le> length val" using step(1) by (simp add: chunk_def)
      from IH r0 le obtain new where new:
        "fst (snd r) = (slices @ [?s]) @ new"
        "sum_list (map size_slice new) = length val - (offset + chunk)"
        "\<forall>s \<in> set new. size_slice s \<le> kMaxSliceSize E \<and> ptr s \<noteq> nullptr"
        "calls (snd (snd r)) = calls ?eng2 @ map alloc_call new"
        by blast
      have c: "calls ?eng2 = calls eng @ [alloc_call ?s]"
        using call_allocate_fields(1) [OF step(2)] by (simp add: alloc_call_def chunk_def)
      have "fst (snd r) = slices @ (?s # new)" using new(1) by simp
      moreover have "sum_list (map size_slice (?s # new)) = length val - offset"
        using new(2) le by simp
      moreover have "\<forall>s \<in> set (?s # new). size_slice s \<le> kMaxSliceSize E \<and> ptr s \<noteq> nullptr"
        using new(3) step(3) by (simp add: chunk_def)
      moreover have "calls (snd (snd r)) = calls eng @ map alloc_call (?s # new)"
        using new(4) c by simp
      ultimately show "\<exists>new. fst (snd r) = slices @ new
          \<and> sum_list (map size_slice new) = length val - offset
          \<and> (\<forall>s \<in> set new. size_slice s \<le> kMaxSliceSize E \<and> ptr s \<noteq> nullptr)
          \<and> (offset < length val \<longrightarrow> new \<noteq> [])
          \<and> calls (snd (snd r)) = calls eng @ map alloc_call new"
        by blast
    qed
  qed
qed

lemma pairwise_separate_append:
  "pairwise_separate (xs @ ys) \<Longrightarrow> x \<in> set xs \<Longrightarrow> y \<in> set ys \<Longrightarrow> separate x y"
  by (induction xs) (auto simp: list_all_iff)

lemma bytes_at_memcpy_same: "bytes_at (memcpy m p bs) p (length bs) = bs"
  by (rule nth_equalityI) (simp_all add: bytes_at_def memcpy_def)

lemma bytes_at_memcpy_other:
  assumes "n = 0 \<or> length bs = 0 \<or> q + n \<le> p \<or> p + length bs \<le> q"
  shows "bytes_at (memcpy m p bs) q n = bytes_at m q n"
  using assms by (auto simp: bytes_at_def memcpy_def)

lemma contents_memcpy_separate:
  assumes "\<forall>t \<in> set slices. separate t \<lparr>ptr = p, size_slice = length bs\<rparr>"
  shows "contents (memcpy m p bs) slices = contents m slices"
proof -
  have "bytes_at (memcpy m p bs) (ptr t) (size_slice t) = bytes_at m (ptr t) (size_slice t)"
    if "t \<in> set slices" for t
    using assms that by (intro bytes_at_memcpy_other) (auto simp: separate_def)
  then show ?thesis by (simp add: contents_def cong: map_cong)
qed

lemma append_slices_contents: "append_slices m slices acc = acc @ contents m slices"
  by (induction slices arbitrary: acc) (simp_all add: contents_def)

lemma allocateSlices_loop_contents:
  assumes "allocateSlices_loop E val offset slices eng = Some r"
  shows "fst r = 0 \<longrightarrow> offset \<le> length val \<longrightarrow> pairwise_separate (fst (snd r)) \<longrightarrow>
     (\<exists>new. fst (snd r) = slices @ new)
     \<and> contents (memory (snd (snd r))) (fst (snd r)) = contents (memory eng) slices @ drop offset val"
proof (rule allocateSlices_loop.raw_induct [where P = "\<lambda>E val offset slices eng r.
    fst r = 0 \<longrightarrow> offset \<le> length val \<longrightarrow> pairwise_separate (fst (snd r)) \<longrightarrow>
     (\<exists>new. fst (snd r) = slices @ new)
     \<and> contents (memory (snd (snd r))) (fst (snd r)) = contents (memory eng) slices @ drop offset val",
    OF _ assms], goal_cases)
  case (1 loop E val offset slices eng r)
  from 1(2) show ?case
  proof (cases rule: loop_body_cases)
    case finished
    then show ?thesis by simp
  next
    case (failed p eng1)
    then show ?thesis by simp
  next
    case (step p eng1)
    define chunk where "chunk = min (length val - offset) (kMaxSliceSize E)"
    define bs where "bs = take chunk (drop offset val)"
    let ?s = "\<lparr>ptr = p, size_slice = chunk\<rparr>"
    let ?eng2 = "eng1\<lparr>memory := memcpy (memory eng1) p bs\<rparr>"
    have rec: "loop E val (offset + chunk) (slices @ [?s]) ?eng2 = Some r"
      using step(4) by (simp add: chunk_def bs_def)
    note IH = 1(1) [OF rec]
    have le: "offset + chunk \<le> length val" using step(1) by (simp add: chunk_def)
    have len: "length bs = chunk" using le by (simp add: bs_def)
    have m1: "memory eng1 = memory eng" by (rule call_allocate_fields(2)) (rule step(2))
    show ?thesis
    proof (intro impI)
      assume r0: "fst r = 0" and sep: "pairwise_separate (fst (snd r))"
      from IH r0 le sep obtain new where new: "fst (snd r) = (slices @ [?s]) @ new"
        and c: "contents (memory (snd (snd r))) (fst (snd r)) =
                contents (memory ?eng2) (slices @ [?s]) @ drop (offset + chunk) val"
        by auto
      have "separate t ?s" if "t \<in> set slices" for t
        using pairwise_separate_append [of slices "?s # new" t ?s] sep new that by simp
      then have old: "contents (memcpy (memory eng) p bs) slices = contents (memory eng) slices"
        by (intro contents_memcpy_separate) (simp add: len)
      have cur: "bytes_at (memcpy (memory eng) p bs) p chunk = bs"
        using bytes_at_memcpy_same [of "memory eng" p bs] by (simp add: len)
      have "contents (memory ?eng2) (slices @ [?s]) = contents (memory eng) slices @ bs"
        using old cur by (simp add: contents_def m1)
      moreover have "bs @ drop (offset + chunk) val = drop offset val"
        by (simp add: bs_def add.commute take_add [symmetric] drop_drop [symmetric]
            del: drop_drop)
      ultimately have "contents (memory (snd (snd r))) (fst (snd r)) =
          contents (memory eng) slices @ drop offset val"
        using c by simp
      moreover have "fst (snd r) = slices @ (?s # new)" using new by simp
      ultimately show "(\<exists>new. fst (snd r) = slices @ new)
        \<and> contents (memory (snd (snd r))) (fst (snd r)) = contents (memory eng) slices @ drop offset val"
        by blast
    qed
  qed
qed


lemma allocateSlices_loop_failure:
  assumes "allocateSlices_loop E val offset slices eng = Some r"
  shows "fst r \<noteq> 0 \<longrightarrow>
     fst r = 1 \<and> fst (snd r) = []
     \<and> (\<exists>new n a1 a2. calls (snd (snd r)) =
            calls eng @ map alloc_call new @ [Call_allocate n nullptr]
              @ map dealloc_call (slices @ new)
          \<and> (\<forall>s \<in> set new. ptr s \<noteq> nullptr)
          \<and> allocated_from E (client_buffer_allocator eng) new a1
          \<and> allocate E a1 n = (nullptr, a2)
          \<and> client_buffer_allocator (snd (snd r)) = deallocated_from E a2 (slices @ new))"
proof (rule allocateSlices_loop.raw_induct [where P = "\<lambda>E val offset slices eng r.
    fst r \<noteq> 0 \<longrightarrow>
     fst r = 1 \<and> fst (snd r) = []
     \<and> (\<exists>new n a1 a2. calls (snd (snd r)) =
            calls eng @ map alloc_call new @ [Call_allocate n nullptr]
              @ map dealloc_call (slices @ new)
          \<and> (\<forall>s \<in> set new. ptr s \<noteq> nullptr)
          \<and> allocated_from E (client_buffer_allocator eng) new a1
          \<and> allocate E a1 n = (nullptr, a2)
          \<and> client_buffer_allocator (snd (snd r)) = deallocated_from E a2 (slices @ new))",
    OF _ assms], goal_cases)
  case (1 loop E val offset slices eng r)
  from 1(2) show ?case
  proof (cases rule: loop_body_cases)
    case finished
    then show ?thesis by simp
  next
    case (failed p eng1)
    define n where "n = min (length val - offset) (kMaxSliceSize E)"
    have "calls eng1 = calls eng @ [Call_allocate n nullptr]"
      using call_allocate_fields(1) [OF failed(2)] failed(3) by (simp add: n_def)
    then have c: "calls (snd (snd r)) =
        calls eng @ map alloc_call [] @ [Call_allocate n nullptr] @ map dealloc_call (slices @ [])"
      using failed(4) by (simp add: calls_deallocate_each)
    have e: "\<forall>s \<in> set ([] :: Slice list). ptr s \<noteq> nullptr" by simp
    have a: "allocated_from E (client_buffer_allocator eng) [] (client_buffer_allocator eng)"
      by simp
    have f: "allocate E (client_buffer_allocator eng) n = (nullptr, client_buffer_allocator eng1)"
      using call_allocate_allocator [OF failed(2)] failed(3) by (simp add: n_def)
    have d: "client_buffer_allocator (snd (snd r))
        = deallocated_from E (client_buffer_allocator eng1) (slices @ [])"
      using failed(4) by (simp add: allocator_deallocate_each)
    from c e a f d have "\<exists>new n a1 a2. calls (snd (snd r)) =
            calls eng @ map alloc_call new @ [Call_allocate n nullptr]
              @ map dealloc_call (slices @ new)
          \<and> (\<forall>s \<in> set new. ptr s \<noteq> nullptr)
          \<and> allocated_from E (client_buffer_allocator eng) new a1
          \<and> allocate E a1 n = (nullptr, a2)
          \<and> client_buffer_allocator (snd (snd r)) = deallocated_from E a2 (slices @ new)"
      by blast
    then show ?thesis using failed(4) by simp
  next
    case (step p eng1)
    define chunk where "chunk = min (length val - offset) (kMaxSliceSize E)"
    let ?s = "\<lparr>ptr = p, size_slice = chunk\<rparr>"
    let ?eng2 = "eng1\<lparr>memory := memcpy (memory eng1) p (take chunk (drop offset val))\<rparr>"
    have rec: "loop E val (offset + chunk) (slices @ [?s]) ?eng2 = Some r"
      using step(4) by (simp add: chunk_def)
    note IH = 1(1) [OF rec]
    have c: "calls ?eng2 = calls eng @ [alloc_call ?s]"
      using call_allocate_fields(1) [OF step(2)] by (simp add: alloc_call_def chunk_def)
    have al: "allocate E (client_buffer_allocator eng) chunk = (p, client_buffer_allocator ?eng2)"
      using call_allocate_allocator [OF step(2)] by (simp add: chunk_def)
    show ?thesis
    proof (intro impI)
      assume r1: "fst r \<noteq> 0"
      from IH r1 obtain new n a1 a2 where r: "fst r = 1" "fst (snd r) = []"
        and new: "calls (snd (snd r)) =
            calls ?eng2 @ map alloc_call new @ [Call_allocate n nullptr]
              @ map dealloc_call ((slices @ [?s]) @ new)"
          "\<forall>s \<in> set new. ptr s \<noteq> nullptr"
          "allocated_from E (client_buffer_allocator ?eng2) new a1"
          "allocate E a1 n = (nullptr, a2)"
          "client_buffer_allocator (snd (snd r)) = deallocated_from E a2 ((slices @ [?s]) @ new)"
        by blast
      have "calls (snd (snd r)) =
            calls eng @ map alloc_call (?s # new) @ [Call_allocate n nullptr]
              @ map dealloc_call (slices @ (?s # new))"
        using new(1) c by simp
      moreover have "\<forall>s \<in> set (?s # new). ptr s \<noteq> nullptr"
        using new(2) step(3) by simp
      moreover have "allocated_from E (client_buffer_allocator eng) (?s # new) a1"
        using new(3) al by simp
      moreover have "client_buffer_allocator (snd (snd r))
          = deallocated_from E a2 (slices @ (?s # new))"
        using new(5) by simp
      ultimately have "\<exists>new n a1 a2. calls (snd (snd r)) =
            calls eng @ map alloc_call new @ [Call_allocate n nullptr]
              @ map dealloc_call (slices @ new)
          \<and> (\<forall>s \<in> set new. ptr s \<noteq> nullptr)
          \<and> allocated_from E (client_buffer_allocator eng) new a1
          \<and> allocate E a1 n = (nullptr, a2)
          \<and> client_buffer_allocator (snd (snd r)) = deallocated_from E a2 (slices @ new)"
        using new(4) by blast
      with r show "fst r = 1 \<and> fst (snd r) = []
        \<and> (\<exists>new n a1 a2. calls (snd (snd r)) =
            calls eng @ map alloc_call new @ [Call_allocate n nullptr]
              @ map dealloc_call (slices @ new)
          \<and> (\<forall>s \<in> set new. ptr s \<noteq> nullptr)
          \<and> allocated_from E (client_buffer_allocator eng) new a1
          \<and> allocate E a1 n = (nullptr, a2)
          \<and> client_buffer_allocator (snd (snd r)) = deallocated_from E a2 (slices @ new))"
        by simp
    qed
  qed
qed

lemma allocateSlices_loop_returns:
  assumes "0 < kMaxSliceSize E"
  shows "allocateSlices_loop E val offset slices eng \<noteq> None"
proof (induction "length val - offset" arbitrary: offset slices eng rule: less_induct)
  case less
  show ?case
  proof (cases "offset < length val")
    case False
    then show ?thesis by (subst allocateSlices_loop.simps) simp
  next
    case True
    define chunk where "chunk = min (length val - offset) (kMaxSliceSize E)"
    obtain p eng1 where al: "call_allocate E chunk eng = (p, eng1)"
      by (cases "call_allocate E chunk eng")
    show ?thesis
    proof (cases "p = nullptr")
      case True
      with \<open>offset < length val\<close> al show ?thesis
        by (subst allocateSlices_loop.simps) (simp add: chunk_def [symmetric])
    next
      case False
      have "0 < chunk" using True assms by (simp add: chunk_def)
      then have "length val - (offset + chunk) < length val - offset"
        using True by simp
      from less [OF this] have
        "allocateSlices_loop E val (offset + chunk) (slices @ [\<lparr>ptr = p, size_slice = chunk\<rparr>])
           (eng1\<lparr>memory := memcpy (memory eng1) p (take chunk (drop offset val))\<rparr>) \<noteq> None" .
      with True False al show ?thesis
        by (subst allocateSlices_loop.simps) (simp add: chunk_def [symmetric])
    qed
  qed
qed

subsection \<open>The loop of \<open>allocateSlices(slices, object_info, length)\<close>\<close>

lemma allocateSlices_handles_shape:
  assumes "allocateSlices_handles E hs slices len eng = Inr (ret, slices', len', eng')"
  shows "memory eng' = memory eng \<and> client eng' = client eng
     \<and> (ret = 0 \<longrightarrow> (\<exists>new. slices' = slices @ new
            \<and> map size_slice new = map size_handle hs
            \<and> calls eng' = calls eng @ map alloc_call new))"
  using assms
proof (induction hs arbitrary: slices len eng)
  case Nil
  then show ?case by simp
next
  case (Cons h hs)
  obtain p eng1 where al: "call_allocate E (size_handle h) eng = (p, eng1)"
    by (cases "call_allocate E (size_handle h) eng")
  note f = call_allocate_fields [OF al]
  from Cons.prems have ok: "size_handle h \<le> kMaxSliceSize E"
    by (auto simp: Let_def split: if_splits)
  show ?case
  proof (cases "p = nullptr")
    case True
    with Cons.prems ok al have "ret = 1" "eng' = eng1" by (simp_all add: Let_def)
    with f show ?thesis by simp
  next
    case False
    let ?s = "\<lparr>ptr = p, size_slice = size_handle h\<rparr>"
    from Cons.prems ok al False have
      "allocateSlices_handles E hs (slices @ [?s]) ((len + size_handle h) mod 2 ^ 64) eng1
         = Inr (ret, slices', len', eng')"
      by (simp add: Let_def)
    from Cons.IH [OF this] have IH: "memory eng' = memory eng1" "client eng' = client eng1"
      "ret = 0 \<longrightarrow> (\<exists>new. slices' = (slices @ [?s]) @ new
            \<and> map size_slice new = map size_handle hs
            \<and> calls eng' = calls eng1 @ map alloc_call new)"
      by simp_all
    show ?thesis
    proof (intro conjI impI)
      show "memory eng' = memory eng" using IH(1) f(2) by simp
      show "client eng' = client eng" using IH(2) f(3) by simp
      assume "ret = 0"
      with IH(3) obtain new where new: "slices' = (slices @ [?s]) @ new"
        "map size_slice new = map size_handle hs" "calls eng' = calls eng1 @ map alloc_call new"
        by blast
      have "slices' = slices @ (?s # new)" using new(1) by simp
      moreover have "map size_slice (?s # new) = map size_handle (h # hs)" using new(2) by simp
      moreover have "calls eng' = calls eng @ map alloc_call (?s # new)"
        using new(3) f(1) by (simp add: alloc_call_def)
      ultimately show "\<exists>new. slices' = slices @ new
            \<and> map size_slice new = map size_handle (h # hs)
            \<and> calls eng' = calls eng @ map alloc_call new"
        by blast
    qed
  qed
qed

lemma allocateSlices_handles_no_abort:
  assumes "list_all (\<lambda>h. size_handle h \<le> kMaxSliceSize E) hs"
  shows "\<exists>r. allocateSlices_handles E hs slices len eng = Inr r"
  using assms
proof (induction hs arbitrary: slices len eng)
  case Nil
  then show ?case by simp
next
  case (Cons h hs)
  obtain p eng1 where al: "call_allocate E (size_handle h) eng = (p, eng1)"
    by (cases "call_allocate E (size_handle h) eng")
  from Cons.prems have ok: "size_handle h \<le> kMaxSliceSize E"
    and rest: "list_all (\<lambda>h. size_handle h \<le> kMaxSliceSize E) hs"
    by simp_all
  show ?case
  proof (cases "p = nullptr")
    case True
    with ok al show ?thesis by (simp add: Let_def)
  next
    case False
    with ok al Cons.IH [OF rest] show ?thesis by (simp add: Let_def)
  qed
qed

subsection \<open>The checks of \<open>PutStart\<close>\<close>

lemma validate_slice_lengths_ok:
  assumes "list_all (\<lambda>l. l \<le> K) ls" "tot + sum_list ls < 2 ^ 64"
  shows "validate_slice_lengths K ls tot = Inr (tot + sum_list ls)"
  using assms
proof (induction ls arbitrary: tot)
  case Nil
  then show ?case by simp
next
  case (Cons l ls)
  then have "tot + l < 2 ^ 64" by simp
  then have "(tot + l) mod 2 ^ 64 = tot + l" by simp
  moreover have "validate_slice_lengths K ls (tot + l) = Inr (tot + l + sum_list ls)"
    using Cons.prems by (intro Cons.IH) (simp_all add: add.assoc)
  ultimately show ?case using Cons.prems(1) by (simp add: add.assoc)
qed

lemma validate_slice_lengths_sizes:
  assumes "list_all (\<lambda>l. l \<le> K) ls"
  shows "validate_slice_lengths K ls tot \<noteq> Inl e"
  using assms by (induction ls arbitrary: tot) simp_all

lemma Put_slice_size_sum:
  assumes "acc + sum_list (map size_slice slices) < 2 ^ 64"
  shows "Put_slice_size slices acc = acc + sum_list (map size_slice slices)"
  using assms
proof (induction slices arbitrary: acc)
  case Nil
  then show ?case by simp
next
  case (Cons s slices)
  then have "acc + size_slice s < 2 ^ 64" by simp
  then have "(acc + size_slice s) mod 2 ^ 64 = acc + size_slice s" by simp
  then show ?case using Cons by (simp add: add.assoc)
qed

lemma validate_slice_lengths_accepts:
  assumes "validate_slice_lengths K ls tot = Inr tot'"
  shows "list_all (\<lambda>l. l \<le> K) ls"
  using assms by (induction ls arbitrary: tot) (auto split: if_splits)

lemma handles_accepted_no_abort:
  assumes "validate_slice_lengths (kMaxSliceSize E) ls tot = Inr tot'"
    and "map size_handle hs = ls"
  shows "allocateSlices_handles E hs gslices len g \<noteq> Inl AssertionFailed"
proof -
  from validate_slice_lengths_accepts [OF assms(1)] assms(2)
  have "list_all (\<lambda>h. size_handle h \<le> kMaxSliceSize E) hs"
    by (auto simp: list_all_iff)
  from allocateSlices_handles_no_abort [OF this, of gslices len g] show ?thesis by auto
qed

subsection \<open>The replicas of \<open>PutStart\<close>\<close>




subsection \<open>The instance\<close>

lemmas example_simps =
  allocateSlices_def allocateSlices_loop.simps example_env_def example_engine_def
  call_allocate_def call_deallocate_def nullptr_def example_slices_def

lemma example_put_slices:
  "\<exists>e. allocateSlices example_env [] ''abcde'' (example_engine 1 []) = Some (0, example_slices, e)"
  by (simp add: example_simps)

lemmas tracking_simps =
  allocateSlices_def allocateSlices_loop.simps tracking_env_def tracking_engine_def
  call_allocate_def call_deallocate_def nullptr_def

subsection \<open>The properties\<close>



text \<open>
  C2: when \<open>allocateSlices\<close> succeeds on \<open>value\<close>, and the allocator has handed out
  buffers that share no byte, the bytes of the slices read in order, as \<open>exportSlices\<close>
  reads them, are \<open>value\<close>. And a \<open>Get\<close> whose query succeeds, whose buffers are
  allocated, and whose transfer fills its slices with the bytes \<open>Put\<close>'s slices held,
  returns \<open>true\<close> with a string equal to \<open>value\<close>, whose length is the sum of the sizes
  of the handles of the replica read.
\<close>

theorem C2_roundtrip:
  assumes "allocateSlices E [] val eng = Some (0, slices, eng')"
      and "pairwise_separate slices"
  shows "exportSlices (memory eng') slices (length val) = val
     \<and> (\<forall>key old g c info c1 gslices len g2 m c2.
          client g = Some c
          \<and> Client_Query E c key = ((OK, info), c1)
          \<and> allocateSlices_object E [] info
               (g\<lparr>client := Some c1, calls := calls g @ [Call_Query key]\<rparr>)
              = Inr (0, gslices, len, g2)
          \<and> Client_Get E c1 key info gslices (memory g2) = ((OK, m), c2)
          \<and> map (\<lambda>s. bytes_at m (ptr s) (size_slice s)) gslices
              = map (\<lambda>s. bytes_at (memory eng') (ptr s) (size_slice s)) slices
          \<longrightarrow> (\<exists>g'. Get E key (Some old) g = Inr (True, Some val, g'))
             \<and> length val = sum_list (map size_handle (handles (hd (replica_list info)))))"
proof -
  from allocateSlices_loop_contents [of E val 0 "[]" eng "(0, slices, eng')"] assms
  have c: "contents (memory eng') slices = val"
    by (simp add: allocateSlices_def contents_def)
  then have export: "exportSlices (memory eng') slices (length val) = val"
    by (simp add: exportSlices_def append_slices_contents)
  have get: "(\<exists>g'. Get E key (Some old) g = Inr (True, Some val, g'))
       \<and> length val = sum_list (map size_handle (handles (hd (replica_list info))))"
    if h: "client g = Some c
          \<and> Client_Query E c key = ((OK, info), c1)
          \<and> allocateSlices_object E [] info
               (g\<lparr>client := Some c1, calls := calls g @ [Call_Query key]\<rparr>)
              = Inr (0, gslices, len, g2)
          \<and> Client_Get E c1 key info gslices (memory g2) = ((OK, m), c2)
          \<and> map (\<lambda>s. bytes_at m (ptr s) (size_slice s)) gslices
              = map (\<lambda>s. bytes_at (memory eng') (ptr s) (size_slice s)) slices"
    for key old g c info c1 gslices len g2 m c2
  proof -
    from h have same: "contents m gslices = val"
      using c by (simp add: contents_def)
    then have "append_slices m gslices [] = val"
      by (simp add: append_slices_contents)
    with h have "\<exists>g'. Get E key (Some old) g = Inr (True, Some val, g')"
      by (simp add: Get_def)
    moreover have "length val = sum_list (map size_handle (handles (hd (replica_list info))))"
    proof -
      from h obtain replica rest where rl: "replica_list info = replica # rest"
        by (cases "replica_list info") (auto simp: allocateSlices_object_def)
      with h have "allocateSlices_handles E (handles replica) [] 0
          (g\<lparr>client := Some c1, calls := calls g @ [Call_Query key]\<rparr>) = Inr (0, gslices, len, g2)"
        by (simp add: allocateSlices_object_def)
      from allocateSlices_handles_shape [OF this]
      have "map size_slice gslices = map size_handle (handles replica)" by auto
      moreover have "length (contents m gslices) = sum_list (map size_slice gslices)"
        by (simp add: contents_def length_concat bytes_at_def comp_def)
      ultimately show ?thesis using same rl by simp
    qed
    ultimately show ?thesis ..
  qed
  from export get show ?thesis by blast
qed

theorem C2_roundtrip_witness:
  "\<exists>e g'. allocateSlices example_env [] ''abcde'' (example_engine 1 []) = Some (0, example_slices, e)
     \<and> pairwise_separate example_slices
     \<and> exportSlices (memory e) example_slices (length ''abcde'') = ''abcde''
     \<and> Get example_env ''k'' (Some ''old'') (example_engine 1 example_chunks)
         = Inr (True, Some ''abcde'', g')"
proof -
  define e where
    "e = snd (snd (the (allocateSlices example_env [] ''abcde'' (example_engine 1 []))))"
  have h: "allocateSlices example_env [] ''abcde'' (example_engine 1 []) = Some (0, example_slices, e)"
    using example_put_slices by (auto simp: e_def)
  have sep: "pairwise_separate example_slices"
    by (simp add: example_slices_def separate_def)
  define g where "g = example_engine 1 example_chunks"
  define g1 where "g1 = g\<lparr>client := Some example_chunks, calls := calls g @ [Call_Query ''k'']\<rparr>"
  have cl: "client g = Some example_chunks"
    by (simp add: g_def example_engine_def)
  have q: "Client_Query example_env example_chunks ''k'' = ((OK, example_info), example_chunks)"
    by (simp add: example_env_def example_info_def example_chunks_def)
  have "\<exists>g2. allocateSlices_object example_env [] example_info g1 = Inr (0, example_slices, 5, g2)"
    by (simp add: allocateSlices_object_def example_info_def g1_def g_def example_simps)
  then obtain g2 where
    a: "allocateSlices_object example_env [] example_info g1 = Inr (0, example_slices, 5, g2)"
    by blast
  then have "allocateSlices_handles example_env (handles (hd (replica_list example_info))) [] 0 g1
      = Inr (0, example_slices, 5, g2)"
    by (simp add: allocateSlices_object_def example_info_def)
  from allocateSlices_handles_shape [OF this] have "memory g2 = memory g1" by simp
  then have mg2: "memory g2 = (\<lambda>_. CHR ''.'')"
    by (simp add: g1_def g_def example_engine_def)
  define m where
    "m = fold (\<lambda>(s, chunk) m. memcpy m (ptr s) chunk) (zip example_slices example_chunks) (memory g2)"
  have t: "Client_Get example_env example_chunks ''k'' example_info example_slices (memory g2)
      = ((OK, m), example_chunks)"
    by (simp add: example_env_def m_def)
  have got: "map (\<lambda>s. bytes_at m (ptr s) (size_slice s)) example_slices = example_chunks"
    by (simp add: m_def mg2 example_slices_def example_chunks_def bytes_at_def memcpy_def)
  have put: "map (\<lambda>s. bytes_at (memory e) (ptr s) (size_slice s)) example_slices = example_chunks"
    unfolding e_def
    by (simp add: example_simps example_chunks_def bytes_at_def memcpy_def)
  have hyps: "client g = Some example_chunks
      \<and> Client_Query example_env example_chunks ''k'' = ((OK, example_info), example_chunks)
      \<and> allocateSlices_object example_env [] example_info
           (g\<lparr>client := Some example_chunks, calls := calls g @ [Call_Query ''k'']\<rparr>)
          = Inr (0, example_slices, 5, g2)
      \<and> Client_Get example_env example_chunks ''k'' example_info example_slices (memory g2)
          = ((OK, m), example_chunks)
      \<and> map (\<lambda>s. bytes_at m (ptr s) (size_slice s)) example_slices
          = map (\<lambda>s. bytes_at (memory e) (ptr s) (size_slice s)) example_slices"
    using cl q a t got put by (simp add: g1_def)
  note rt = C2_roundtrip [OF h sep]
  from rt have ex: "exportSlices (memory e) example_slices (length ''abcde'') = ''abcde''"
    by (rule conjunct1)
  from rt [THEN conjunct2, rule_format, OF hyps, of "''old''"]
  obtain g' where "Get example_env ''k'' (Some ''old'') g = Inr (True, Some ''abcde'', g')"
    by blast
  with h sep ex show ?thesis unfolding g_def by blast
qed

text \<open>
  C3: when \<open>allocateSlices(slices, value)\<close> returns a nonzero value, that value is \<open>1\<close>,
  the \<open>slices\<close> vector is empty on return, and the calls made to the allocator during
  the call are: the successful allocations, the allocation that returned null, then
  one \<open>deallocate\<close> for every slice that was in the vector on entry and for every slice
  allocated in this call, each with the pointer and size it was allocated with. The
  allocator is left in the state these calls lead to: from its state on entry through
  the allocations, the failed one, and the deallocation of every slice. A \<open>put\<close> in
  which this happens returns \<open>1\<close> in that state (\<open>Put\<close> returns \<open>false\<close>), with no
  call to the client.
\<close>

theorem C3_failure_releases:
  assumes "allocateSlices E slices0 val eng = Some (ret, slices, eng')" and "ret \<noteq> 0"
  shows "ret = 1 \<and> slices = []
     \<and> (\<exists>new n a1 a2. calls eng' =
            calls eng @ map alloc_call new @ [Call_allocate n nullptr]
              @ map dealloc_call (slices0 @ new)
          \<and> (\<forall>s \<in> set new. ptr s \<noteq> nullptr)
          \<and> allocated_from E (client_buffer_allocator eng) new a1
          \<and> allocate E a1 n = (nullptr, a2)
          \<and> client_buffer_allocator eng' = deallocated_from E a2 (slices0 @ new))
     \<and> (slices0 = [] \<and> client eng \<noteq> None \<longrightarrow>
          put E key val eng = Some (1, eng') \<and> Put E key val eng = Some (False, eng'))"
proof -
  note f = allocateSlices_loop_failure [of E val 0 slices0 eng "(ret, slices, eng')"]
  from f assms have r: "ret = 1" "slices = []"
    by (simp_all add: allocateSlices_def)
  from f assms have tr: "\<exists>new n a1 a2. calls eng' =
            calls eng @ map alloc_call new @ [Call_allocate n nullptr]
              @ map dealloc_call (slices0 @ new)
          \<and> (\<forall>s \<in> set new. ptr s \<noteq> nullptr)
          \<and> allocated_from E (client_buffer_allocator eng) new a1
          \<and> allocate E a1 n = (nullptr, a2)
          \<and> client_buffer_allocator eng' = deallocated_from E a2 (slices0 @ new)"
    by (simp add: allocateSlices_def)
  have p: "put E key val eng = Some (1, eng') \<and> Put E key val eng = Some (False, eng')"
    if "slices0 = [] \<and> client eng \<noteq> None"
  proof -
    from that obtain c where "client eng = Some c" by auto
    with that assms(1) r have "put E key val eng = Some (1, eng')"
      by (simp add: put_def)
    then show ?thesis by (simp add: Put_def)
  qed
  from r tr p show ?thesis by blast
qed

theorem C3_failure_releases_witness:
  "\<exists>e. allocateSlices tracking_env [] ''abcde'' (tracking_engine (61, []) []) = Some (1, [], e)
     \<and> calls e = [Call_allocate 2 61, Call_allocate 2 nullptr, Call_deallocate 61 2]
     \<and> allocated_from tracking_env (61, []) [\<lparr>ptr = 61, size_slice = 2\<rparr>] (63, [(61, 2)])
     \<and> allocate tracking_env (63, [(61, 2)]) 2 = (nullptr, (63, [(61, 2)]))
     \<and> client_buffer_allocator e
         = deallocated_from tracking_env (63, [(61, 2)]) ([] @ [\<lparr>ptr = 61, size_slice = 2\<rparr>])
     \<and> client_buffer_allocator e = (63, [])
     \<and> Put tracking_env ''k'' ''abcde'' (tracking_engine (61, []) []) = Some (False, e)"
proof -
  define e where
    "e = snd (snd (the (allocateSlices tracking_env [] ''abcde'' (tracking_engine (61, []) []))))"
  have "\<exists>e. allocateSlices tracking_env [] ''abcde'' (tracking_engine (61, []) []) = Some (1, [], e)"
    by (simp add: tracking_simps)
  then have h: "allocateSlices tracking_env [] ''abcde'' (tracking_engine (61, []) []) = Some (1, [], e)"
    by (auto simp: e_def)
  have one: "(1::int) \<noteq> 0" by simp
  note released = C3_failure_releases [OF h one, where key = "''k''"]
  have "client (tracking_engine (61, []) []) \<noteq> None"
    by (simp add: tracking_engine_def)
  with released have p: "Put tracking_env ''k'' ''abcde'' (tracking_engine (61, []) []) = Some (False, e)"
    by blast
  have c: "calls e = [Call_allocate 2 61, Call_allocate 2 nullptr, Call_deallocate 61 2]"
    unfolding e_def by (simp add: tracking_simps)
  have a: "client_buffer_allocator e = (63, [])"
    unfolding e_def by (simp add: tracking_simps)
  have f: "allocated_from tracking_env (61, []) [\<lparr>ptr = 61, size_slice = 2\<rparr>] (63, [(61, 2)])"
    by (simp add: tracking_env_def)
  have n: "allocate tracking_env (63, [(61, 2)]) 2 = (nullptr, (63, [(61, 2)]))"
    by (simp add: tracking_env_def)
  have d: "deallocated_from tracking_env (63, [(61, 2)]) ([] @ [\<lparr>ptr = 61, size_slice = 2\<rparr>]) = (63, [])"
    by (simp add: tracking_env_def deallocated_from_def)
  from h p c a f n d show ?thesis by simp
qed

text \<open>
  C4: every slice \<open>allocateSlices(slices, value)\<close> produces is at most \<open>kMaxSliceSize\<close>
  bytes long, so the loop of \<open>PutStart\<close> that checks the slice lengths does not reject
  them, and the whole parameter check of \<open>PutStart\<close> accepts the request \<open>Client::Put\<close>
  builds from them for a non-empty key and value; and over handles of these sizes, as
  over handles of any slice lengths \<open>PutStart\<close>'s check lets through, the assertion
  \<open>chunk_size <= kMaxSliceSize\<close> of the other \<open>allocateSlices\<close> does not fail.
\<close>

theorem C4_slice_sizes:
  assumes "allocateSlices E [] val eng = Some (0, slices, eng')"
  shows "(\<forall>s \<in> set slices. size_slice s \<le> kMaxSliceSize E)
     \<and> (\<forall>tot. validate_slice_lengths (kMaxSliceSize E) (map size_slice slices) tot
            \<noteq> Inl INVALID_PARAMS)
     \<and> (val \<noteq> [] \<and> key \<noteq> [] \<and> length val < 2 ^ 64 \<longrightarrow>
          PutStart_validate (kMaxSliceSize E) key (Put_slice_size slices 0)
            (map size_slice slices) 1 = OK)
     \<and> (\<forall>hs gslices len g. map size_handle hs = map size_slice slices \<longrightarrow>
          allocateSlices_handles E hs gslices len g \<noteq> Inl AssertionFailed)
     \<and> (\<forall>ls tot tot' hs gslices len g.
          validate_slice_lengths (kMaxSliceSize E) ls tot = Inr tot' \<and> map size_handle hs = ls
          \<longrightarrow> allocateSlices_handles E hs gslices len g \<noteq> Inl AssertionFailed)"
proof -
  from allocateSlices_loop_success [of E val 0 "[]" eng "(0, slices, eng')"] assms
  have sizes: "\<forall>s \<in> set slices. size_slice s \<le> kMaxSliceSize E"
    and tot: "sum_list (map size_slice slices) = length val"
    by (auto simp: allocateSlices_def)
  from sizes have all: "list_all (\<lambda>l. l \<le> kMaxSliceSize E) (map size_slice slices)"
    by (simp add: list_all_iff)
  have v: "validate_slice_lengths (kMaxSliceSize E) (map size_slice slices) tot
      \<noteq> Inl INVALID_PARAMS" for tot
    using all by (rule validate_slice_lengths_sizes)
  have p: "PutStart_validate (kMaxSliceSize E) key (Put_slice_size slices 0)
            (map size_slice slices) 1 = OK"
    if "val \<noteq> [] \<and> key \<noteq> [] \<and> length val < 2 ^ 64"
  proof -
    have "Put_slice_size slices 0 = length val"
      using Put_slice_size_sum [of 0 slices] tot that by simp
    moreover have "validate_slice_lengths (kMaxSliceSize E) (map size_slice slices) 0
        = Inr (length val)"
      using validate_slice_lengths_ok [OF all, of 0] tot that by simp
    ultimately show ?thesis using that by (simp add: PutStart_validate_def)
  qed
  have a: "allocateSlices_handles E hs gslices len g \<noteq> Inl AssertionFailed"
    if "map size_handle hs = map size_slice slices" for hs gslices len g
  proof -
    have "list_all (\<lambda>l. l \<le> kMaxSliceSize E) (map size_handle hs)"
      using all that by simp
    then have "list_all (\<lambda>h. size_handle h \<le> kMaxSliceSize E) hs"
      by (simp add: list_all_iff)
    from allocateSlices_handles_no_abort [OF this, of gslices len g] show ?thesis by auto
  qed
  have b: "allocateSlices_handles E hs gslices len g \<noteq> Inl AssertionFailed"
    if "validate_slice_lengths (kMaxSliceSize E) ls tot = Inr tot' \<and> map size_handle hs = ls"
    for ls tot tot' hs gslices len g
    using that handles_accepted_no_abort [of E ls tot tot' hs gslices len g] by blast
  from sizes v p a b show ?thesis by blast
qed

theorem C4_slice_sizes_witness:
  "(\<exists>e. allocateSlices example_env [] ''abcde'' (example_engine 1 []) = Some (0, example_slices, e))
   \<and> list_all (\<lambda>s. size_slice s \<le> 2) example_slices
   \<and> PutStart_validate 2 ''k'' (Put_slice_size example_slices 0)
        (map size_slice example_slices) 1 = OK"
proof -
  from example_put_slices obtain e where
    h: "allocateSlices example_env [] ''abcde'' (example_engine 1 []) = Some (0, example_slices, e)"
    by blast
  have k: "kMaxSliceSize example_env = 2" by (simp add: example_env_def)
  from C4_slice_sizes [OF h, where key = "''k''"] have
    "\<forall>s \<in> set example_slices. size_slice s \<le> 2"
    "PutStart_validate 2 ''k'' (Put_slice_size example_slices 0)
        (map size_slice example_slices) 1 = OK"
    by (simp_all add: k)
  with h show ?thesis by (auto simp: list_all_iff)
qed

text \<open>
  C8: \<open>Get(key, value)\<close> with a null \<open>value\<close>, or with \<open>client_\<close> null, returns \<open>false\<close>
  and leaves everything as it was: the client and the store behind it, the allocator,
  the memory, the string \<open>value\<close> points to, and no call to \<open>Query\<close>, \<open>Get\<close>,
  \<open>allocate\<close> or \<open>deallocate\<close> is made.
\<close>

theorem C8_get_guards:
  "Get E key None eng = Inr (False, None, eng)
   \<and> (client eng = None \<longrightarrow> Get E key val eng = Inr (False, val, eng))"
  by (cases val) (simp_all add: Get_def)

theorem C8_get_guards_witness:
  "Get example_env ''k'' None (example_engine 1 []) = Inr (False, None, example_engine 1 [])
   \<and> client ((example_engine 1 [])\<lparr>client := None\<rparr>) = None
   \<and> Get example_env ''k'' (Some ''x'') ((example_engine 1 [])\<lparr>client := None\<rparr>)
       = Inr (False, Some ''x'', (example_engine 1 [])\<lparr>client := None\<rparr>)"
  using C8_get_guards [of example_env "''k''" "example_engine 1 []" "Some ''x''"]
    C8_get_guards [of example_env "''k''" "(example_engine 1 [])\<lparr>client := None\<rparr>" "Some ''x''"]
  by simp


section \<open>Properties of the percentiles\<close>

lemma example_percentiles:
  "calculate_percentiles (\<lambda>x. x) [3, 1, 2] = Inr ([1, 2, 3], 2, 3, 3, 3)"
  by (simp add: calculate_percentiles_def element_at_def percentile_index_def)

lemma percentile_index_bounds:
  assumes r: "double_rounding rnd" and n: "0 < n" "n \<le> 2 ^ 53" and q: "1 / 2 \<le> q" "q \<le> 1"
  shows "0 \<le> percentile_index rnd n q \<and> percentile_index rnd n q < int n"
proof -
  from r have m: "\<And>x y. x \<le> y \<Longrightarrow> rnd x \<le> rnd y"
    and ex: "\<And>k::int. \<bar>k\<bar> \<le> 2 ^ 53 \<Longrightarrow> rnd (of_int k) = of_int k"
    and half: "rnd (1 / 2) = 1 / 2" "rnd (- (1 / 2)) = - (1 / 2)"
    by (auto simp: double_rounding_def mono_def)
  have rn: "rnd (real n) = real n"
    using ex [of "int n"] n by simp
  have r1: "rnd 1 = 1" using ex [of 1] by simp
  have c: "1 / 2 \<le> rnd q" "rnd q \<le> 1"
    using m [OF q(1)] m [OF q(2)] half r1 by simp_all
  have n1: "1 \<le> real n" using n by simp
  have lo: "1 / 2 \<le> real n * rnd q"
  proof -
    have "1 * (1 / 2) \<le> real n * rnd q"
      using n1 c(1) by (intro mult_mono) simp_all
    then show ?thesis by simp
  qed
  have hi: "real n * rnd q \<le> real n"
    using c(2) n1 by (simp add: mult_left_le)
  have x: "1 / 2 \<le> rnd (real n * rnd q)" "rnd (real n * rnd q) \<le> real n"
    using m [OF lo] m [OF hi] half rn by simp_all
  have rm: "rnd (real n - 1) = real n - 1"
    using ex [of "int n - 1"] n by simp
  have y: "- (1 / 2) \<le> rnd (rnd (real n * rnd q) - 1)" "rnd (rnd (real n * rnd q) - 1) \<le> real n - 1"
  proof -
    have "- (1 / 2) \<le> rnd (real n * rnd q) - 1" using x(1) by simp
    from m [OF this] show "- (1 / 2) \<le> rnd (rnd (real n * rnd q) - 1)" using half by simp
    have "rnd (real n * rnd q) - 1 \<le> real n - 1" using x(2) by simp
    from m [OF this] show "rnd (rnd (real n * rnd q) - 1) \<le> real n - 1" using rm by simp
  qed
  have "0 \<le> \<lceil>rnd (rnd (real n * rnd q) - 1)\<rceil>"
    using y(1) by (simp add: le_ceiling_iff)
  moreover have "\<lceil>rnd (rnd (real n * rnd q) - 1)\<rceil> \<le> int n - 1"
  proof -
    have "rnd (rnd (real n * rnd q) - 1) \<le> of_int (int n - 1)" using y(2) by simp
    then show ?thesis by (rule iffD2 [OF ceiling_le_iff])
  qed
  ultimately show ?thesis by (simp add: percentile_index_def rn)
qed

lemma percentile_index_mono:
  assumes r: "double_rounding rnd" and q: "q \<le> q'"
  shows "percentile_index rnd n q \<le> percentile_index rnd n q'"
proof -
  from r have m: "\<And>x y. x \<le> y \<Longrightarrow> rnd x \<le> rnd y"
    and ex: "\<And>k::int. \<bar>k\<bar> \<le> 2 ^ 53 \<Longrightarrow> rnd (of_int k) = of_int k"
    by (auto simp: double_rounding_def mono_def)
  have "0 \<le> rnd 0" using ex [of 0] by simp
  then have n0: "0 \<le> rnd (real n)" using m [of 0 "real n"] by simp
  have "rnd (real n) * rnd q \<le> rnd (real n) * rnd q'"
    using m [OF q] n0 by (intro mult_left_mono)
  from m [OF this] have "rnd (rnd (real n) * rnd q) - 1 \<le> rnd (rnd (real n) * rnd q') - 1"
    by simp
  from m [OF this] show ?thesis
    by (simp add: percentile_index_def ceiling_mono)
qed


lemma element_at_in_range:
  assumes "0 \<le> i" "i < int (length xs)"
  shows "element_at xs i = Inr (xs ! nat i)"
  using assms by (simp add: element_at_def)

text \<open>
  C10: for an empty vector the four outputs are \<open>0.0\<close>. For a non-empty vector of at
  most \<open>2 ^ 53\<close> latencies, each of the four indices \<open>ceil(size * q - 1)\<close>, computed in
  \<open>double\<close>, lies in \<open>[0, size)\<close>; the function sorts the vector, returns the elements
  of the sorted vector at these indices, and \<open>p50 \<le> p90 \<le> p95 \<le> p99\<close>.
\<close>

theorem C10_percentiles:
  assumes "double_rounding rnd" and "length latencies \<le> 2 ^ 53"
  shows "calculate_percentiles rnd [] = Inr ([], 0, 0, 0, 0)
     \<and> (latencies \<noteq> [] \<longrightarrow>
          (\<forall>q \<in> {50 / 100, 90 / 100, 95 / 100, 99 / 100}.
              0 \<le> percentile_index rnd (length latencies) q
              \<and> percentile_index rnd (length latencies) q < int (length latencies))
          \<and> (\<exists>p50 p90 p95 p99.
                calculate_percentiles rnd latencies = Inr (sort latencies, p50, p90, p95, p99)
                \<and> p50 = sort latencies ! nat (percentile_index rnd (length latencies) (50 / 100))
                \<and> p90 = sort latencies ! nat (percentile_index rnd (length latencies) (90 / 100))
                \<and> p95 = sort latencies ! nat (percentile_index rnd (length latencies) (95 / 100))
                \<and> p99 = sort latencies ! nat (percentile_index rnd (length latencies) (99 / 100))
                \<and> p50 \<le> p90 \<and> p90 \<le> p95 \<and> p95 \<le> p99))"
proof -
  have empty: "calculate_percentiles rnd [] = Inr ([], 0, 0, 0, 0)"
    by (simp add: calculate_percentiles_def)
  have rest: "(\<forall>q \<in> {50 / 100, 90 / 100, 95 / 100, 99 / 100}.
              0 \<le> percentile_index rnd (length latencies) q
              \<and> percentile_index rnd (length latencies) q < int (length latencies))
          \<and> (\<exists>p50 p90 p95 p99.
                calculate_percentiles rnd latencies = Inr (sort latencies, p50, p90, p95, p99)
                \<and> p50 = sort latencies ! nat (percentile_index rnd (length latencies) (50 / 100))
                \<and> p90 = sort latencies ! nat (percentile_index rnd (length latencies) (90 / 100))
                \<and> p95 = sort latencies ! nat (percentile_index rnd (length latencies) (95 / 100))
                \<and> p99 = sort latencies ! nat (percentile_index rnd (length latencies) (99 / 100))
                \<and> p50 \<le> p90 \<and> p90 \<le> p95 \<and> p95 \<le> p99)"
    if ne: "latencies \<noteq> []"
  proof -
    define n where "n = length latencies"
    define xs where "xs = sort latencies"
    define i50 where "i50 = percentile_index rnd n (50 / 100)"
    define i90 where "i90 = percentile_index rnd n (90 / 100)"
    define i95 where "i95 = percentile_index rnd n (95 / 100)"
    define i99 where "i99 = percentile_index rnd n (99 / 100)"
    have n: "0 < n" "n \<le> 2 ^ 53" using ne assms(2) by (simp_all add: n_def)
    have len: "length xs = n" by (simp add: xs_def n_def)
    have b50: "0 \<le> i50 \<and> i50 < int n"
      unfolding i50_def by (rule percentile_index_bounds [OF assms(1) n]) simp_all
    have b90: "0 \<le> i90 \<and> i90 < int n"
      unfolding i90_def by (rule percentile_index_bounds [OF assms(1) n]) simp_all
    have b95: "0 \<le> i95 \<and> i95 < int n"
      unfolding i95_def by (rule percentile_index_bounds [OF assms(1) n]) simp_all
    have b99: "0 \<le> i99 \<and> i99 < int n"
      unfolding i99_def by (rule percentile_index_bounds [OF assms(1) n]) simp_all
    have m1: "i50 \<le> i90" unfolding i50_def i90_def
      by (rule percentile_index_mono [OF assms(1)]) simp
    have m2: "i90 \<le> i95" unfolding i90_def i95_def
      by (rule percentile_index_mono [OF assms(1)]) simp
    have m3: "i95 \<le> i99" unfolding i95_def i99_def
      by (rule percentile_index_mono [OF assms(1)]) simp
    have srt: "sorted xs" by (simp add: xs_def)
    have ord: "xs ! nat i \<le> xs ! nat j" if "0 \<le> i" "i \<le> j" "j < int n" for i j
      using srt that len by (intro sorted_nth_mono) simp_all
    have e50: "element_at xs i50 = Inr (xs ! nat i50)"
      using b50 len by (intro element_at_in_range) simp_all
    have e90: "element_at xs i90 = Inr (xs ! nat i90)"
      using b90 len by (intro element_at_in_range) simp_all
    have e95: "element_at xs i95 = Inr (xs ! nat i95)"
      using b95 len by (intro element_at_in_range) simp_all
    have e99: "element_at xs i99 = Inr (xs ! nat i99)"
      using b99 len by (intro element_at_in_range) simp_all
    have run: "calculate_percentiles rnd latencies =
        Inr (xs, xs ! nat i50, xs ! nat i90, xs ! nat i95, xs ! nat i99)"
    proof -
      have n': "length (sort latencies) = n" by (simp add: n_def)
      show ?thesis
        unfolding calculate_percentiles_def Let_def n'
        unfolding xs_def [symmetric] i50_def [symmetric] i90_def [symmetric]
          i95_def [symmetric] i99_def [symmetric]
        by (simp only: ne if_False e50 e90 e95 e99 sum.case)
    qed
    have o1: "xs ! nat i50 \<le> xs ! nat i90" using b50 m1 b90 by (intro ord) simp_all
    have o2: "xs ! nat i90 \<le> xs ! nat i95" using b90 m2 b95 by (intro ord) simp_all
    have o3: "xs ! nat i95 \<le> xs ! nat i99" using b95 m3 b99 by (intro ord) simp_all
    have bounds: "\<forall>q \<in> {50 / 100, 90 / 100, 95 / 100, 99 / 100}.
              0 \<le> percentile_index rnd n q \<and> percentile_index rnd n q < int n"
      using b50 b90 b95 b99 by (simp add: i50_def i90_def i95_def i99_def)
    from bounds run o1 o2 o3 show ?thesis
      unfolding n_def xs_def i50_def i90_def i95_def i99_def n_def by blast
  qed
  from empty rest show ?thesis by blast
qed

theorem C10_percentiles_witness:
  "double_rounding (\<lambda>x. x) \<and> length [3, 1, 2 :: real] \<le> 2 ^ 53
   \<and> calculate_percentiles (\<lambda>x. x) [3, 1, 2] = Inr ([1, 2, 3], 2, 3, 3, 3)
   \<and> (2 :: real) \<le> 3"
proof -
  have r: "double_rounding (\<lambda>x. x)" by (simp add: double_rounding_def mono_def)
  have l: "length [3, 1, 2 :: real] \<le> 2 ^ 53" by simp
  have ne: "[3, 1, 2 :: real] \<noteq> []" by simp
  from C10_percentiles [OF r l] ne obtain p50 p90 p95 p99 where
    run: "calculate_percentiles (\<lambda>x. x) [3, 1, 2] = Inr (sort [3, 1, 2], p50, p90, p95, p99)"
    and o: "p50 \<le> p90"
    by blast
  from run example_percentiles have "p50 = 2" "p90 = 3" by simp_all
  with o have "(2 :: real) \<le> 3" by simp
  with r l example_percentiles show ?thesis by simp
qed

end
